theory Spec2Isabelle
  imports Complex_Main "HOL-Library.Char_ord" "HOL-Library.List_Lexorder"
begin

section \<open>Cells, series and frames\<close>

text \<open>
  The warehouse loader \<^verbatim>\<open>etl_to_dw.py\<close> works on pandas DataFrames read from CSV files.
  A cell of such a frame is a missing value (\<^verbatim>\<open>NaN\<close> from the reader, \<^verbatim>\<open>None\<close> written by
  \<^verbatim>\<open>replace\<close>), a string, an integer, a float or a boolean.  Finite floats are kept as the
  rational number they denote; the two infinities are values of their own and the float
  \<^verbatim>\<open>NaN\<close> is the missing cell.
\<close>

datatype pyfloat = Fin rat | PInf | NInf

datatype cell = CNaN | CNone | CStr string | CInt int | CFloat pyfloat | CBool bool

datatype error = KeyError string | AttributeError | ValueError | IntCastingNaNError |
  FileNotFoundError string | IntegrityError

text \<open>
  Three functions of the Python and pandas libraries are taken as they are, as fields of a
  parameter: the rendering \<^verbatim>\<open>str(x)\<close> of a float, the reading of one string as a number by
  \<^verbatim>\<open>pd.to_numeric\<close>, and the matching of one cell against the format \<^verbatim>\<open>%Y-%m-%d\<close> by
  \<^verbatim>\<open>pd.to_datetime\<close>, which yields year, month and day.
\<close>

record pylib =
  float_repr :: "pyfloat \<Rightarrow> string"
  parse_numeric :: "string \<Rightarrow> (int + pyfloat) option"
  strptime :: "cell \<Rightarrow> (nat \<times> nat \<times> nat) option"

type_synonym series = "cell list"

text \<open>A frame is the list of its columns, in column order, each with its name.\<close>

type_synonym frame = "(string \<times> series) list"

fun isna :: "cell \<Rightarrow> bool" where
  "isna CNaN = True"
| "isna CNone = True"
| "isna _ = False"

definition dropna :: "series \<Rightarrow> series" where
  "dropna s = filter (\<lambda>c. \<not> isna c) s"

definition digit_char :: "nat \<Rightarrow> char" where
  "digit_char n = ''0123456789'' ! n"

fun str_nat :: "nat \<Rightarrow> string" where
  "str_nat n = (if n < 10 then [digit_char n] else str_nat (n div 10) @ [digit_char (n mod 10)])"

declare str_nat.simps [simp del]

definition str_int :: "int \<Rightarrow> string" where
  "str_int i = (if i < 0 then CHR ''-'' # str_nat (nat (- i)) else str_nat (nat i))"

text \<open>
  \<^verbatim>\<open>Series.astype(str)\<close>, cell by cell: a missing value becomes the text \<^verbatim>\<open>nan\<close> (or
  \<^verbatim>\<open>None\<close>), which is why the loader replaces \<^verbatim>\<open>"nan"\<close> in the campaign column.
\<close>

fun astype_str :: "pylib \<Rightarrow> cell \<Rightarrow> string" where
  "astype_str L CNaN = ''nan''"
| "astype_str L CNone = ''None''"
| "astype_str L (CStr s) = s"
| "astype_str L (CInt i) = str_int i"
| "astype_str L (CFloat f) = float_repr L f"
| "astype_str L (CBool b) = (if b then ''True'' else ''False'')"

section \<open>Column types\<close>

text \<open>
  A pandas column of numbers holds them in one type: \<^verbatim>\<open>int64\<close> when all of them are
  integers, \<^verbatim>\<open>float64\<close> as soon as one of them is a float or is missing, and then every
  integer of the column is stored as the float nearest to it.  A column that holds a string,
  a boolean or \<^verbatim>\<open>None\<close> keeps its cells as they are.  The type of a column is read off its
  cells here, as \<^verbatim>\<open>read_csv\<close> and the operations of the loader set it; an integer cell is an
  integer of 64 bits.

  The float nearest to an integer is the integer itself up to \<open>2^53\<close>; a larger one is
  rounded to 53 significant bits, a tie going to the even neighbour.
\<close>

function bit_length :: "int \<Rightarrow> nat" where
  "bit_length n = (if n \<le> 0 then 0 else Suc (bit_length (n div 2)))"
  by auto

termination
  by (relation "measure nat") auto

declare bit_length.simps [simp del]

definition round_half_even :: "nat \<Rightarrow> int \<Rightarrow> int" where
  "round_half_even k n =
     (let q = n div 2 ^ k; r = n mod 2 ^ k
      in (if 2 ^ k < 2 * r \<or> (2 * r = 2 ^ k \<and> odd q) then q + 1 else q) * 2 ^ k)"

definition float64_of_int :: "int \<Rightarrow> pyfloat" where
  "float64_of_int i =
     (if \<bar>i\<bar> \<le> 2 ^ 53 then Fin (of_int i)
      else let m = round_half_even (bit_length \<bar>i\<bar> - 53) \<bar>i\<bar>
           in Fin (of_int (if i < 0 then - m else m)))"

definition is_number :: "cell \<Rightarrow> bool" where
  "is_number c = (case c of CInt i \<Rightarrow> True | CFloat f \<Rightarrow> True | CNaN \<Rightarrow> True | _ \<Rightarrow> False)"

definition is_float :: "cell \<Rightarrow> bool" where
  "is_float c = (case c of CFloat f \<Rightarrow> True | CNaN \<Rightarrow> True | _ \<Rightarrow> False)"

definition as_float :: "cell \<Rightarrow> cell" where
  "as_float c = (case c of CInt i \<Rightarrow> CFloat (float64_of_int i) | _ \<Rightarrow> c)"

text \<open>The cells of a column as pandas stores them: a column of numbers with a float is a float column.\<close>

definition upcast :: "series \<Rightarrow> series" where
  "upcast s = (if list_all is_number s \<and> list_ex is_float s then map as_float s else s)"

text \<open>
  A column that is to receive missing values must be able to hold them: a column of
  integers becomes a float column.
\<close>

definition hold_na :: "series \<Rightarrow> series" where
  "hold_na s = (if list_all is_number s then map as_float s else s)"

section \<open>Frames\<close>

definition nrows :: "frame \<Rightarrow> nat" where
  "nrows df = (case df of [] \<Rightarrow> 0 | (c, s) # _ \<Rightarrow> length s)"

text \<open>\<^verbatim>\<open>df.empty\<close>: no column or no row.\<close>

definition is_empty :: "frame \<Rightarrow> bool" where
  "is_empty df = (df = [] \<or> nrows df = 0)"

text \<open>\<^verbatim>\<open>df[c]\<close> raises \<^verbatim>\<open>KeyError\<close> when the frame has no column \<^verbatim>\<open>c\<close>.\<close>

definition getcol :: "frame \<Rightarrow> string \<Rightarrow> error + series" where
  "getcol df c = (case map_of df c of None \<Rightarrow> Inl (KeyError c) | Some s \<Rightarrow> Inr s)"

text \<open>\<^verbatim>\<open>df[c] = s\<close> replaces the column in place, or adds it as the last column.\<close>

definition setcol :: "frame \<Rightarrow> string \<Rightarrow> series \<Rightarrow> frame" where
  "setcol df c s =
     (if c \<in> set (map fst df) then map (\<lambda>(n, t). if n = c then (n, s) else (n, t)) df
      else df @ [(c, s)])"

text \<open>
  The cells of a column, and an all-missing column where the frame has none of that name.
\<close>

definition column_or_nan :: "frame \<Rightarrow> string \<Rightarrow> series" where
  "column_or_nan df c = (case map_of df c of None \<Rightarrow> replicate (nrows df) CNaN | Some s \<Rightarrow> s)"

text \<open>
  \<^verbatim>\<open>pd.concat([a, b], ignore_index=True)\<close>, where \<^verbatim>\<open>b\<close> has rows: the columns of \<^verbatim>\<open>a\<close> in
  their order, then the columns only \<^verbatim>\<open>b\<close> has; the rows of \<^verbatim>\<open>a\<close> followed by the rows of
  \<^verbatim>\<open>b\<close>.  A column that only one of the frames has is filled with missing values for the rows
  of the other, and the joined column takes the common type of its two parts.  A frame with
  no column and no row is left out of the concatenation.
\<close>

definition concat_frames :: "frame \<Rightarrow> frame \<Rightarrow> frame" where
  "concat_frames a b =
     (if a = [] then b
      else map (\<lambda>(c, s). (c, case map_of b c of
                                None \<Rightarrow> hold_na s @ replicate (nrows b) CNaN
                              | Some t \<Rightarrow> upcast (s @ t))) a @
           map (\<lambda>(c, t). (c, replicate (nrows a) CNaN @ hold_na t))
             (filter (\<lambda>(c, t). c \<notin> set (map fst a)) b))"

text \<open>All columns of a frame have the same number of cells, and no two share a name.\<close>

definition wf_frame :: "frame \<Rightarrow> bool" where
  "wf_frame df = (distinct (map fst df) \<and> list_all (\<lambda>(c, s). length s = nrows df) df)"

section \<open>The Referential Closure Enforcer\<close>

text \<open>
  A value of \<^verbatim>\<open>fill_cols\<close> is a constant or a callable, which is mapped over the key column of
  the rows to add; \<^verbatim>\<open>Series.map\<close> gives its results the type of a column of their kind.
\<close>

datatype fill = Const cell | Callable "cell \<Rightarrow> cell"

definition fill_column :: "string \<Rightarrow> frame \<Rightarrow> string \<times> fill \<Rightarrow> frame" where
  "fill_column key add cv =
     (case cv of
        (c, Const v) \<Rightarrow> setcol add c (replicate (nrows add) v)
      | (c, Callable f) \<Rightarrow> setcol add c (upcast (map f (column_or_nan add key))))"

definition missing_keys :: "string list \<Rightarrow> string list \<Rightarrow> string list" where
  "missing_keys need have = sort (remdups (filter (\<lambda>k. k \<notin> set have) need))"

definition ensure_dim_covers_sales_keys ::
  "pylib \<Rightarrow> frame \<Rightarrow> frame \<Rightarrow> string \<Rightarrow> (string \<times> fill) list \<Rightarrow> error + frame" where
  "ensure_dim_covers_sales_keys L sales_df dim_df key fill_cols =
     (case (if \<not> is_empty dim_df then getcol dim_df key else Inr []) of
        Inl e \<Rightarrow> Inl e
      | Inr dim_keys \<Rightarrow>
          (case getcol sales_df key of
             Inl e \<Rightarrow> Inl e
           | Inr sales_keys \<Rightarrow>
               (let have = map (astype_str L) dim_keys;
                    need = map (astype_str L) (dropna sales_keys);
                    missing = missing_keys need have
                in if missing = [] then Inr dim_df
                   else Inr (concat_frames dim_df
                          (foldl (fill_column key) [(key, map CStr missing)] fill_cols)))))"

text \<open>The default attributes \<^verbatim>\<open>load_dw\<close> passes for each of the five foreign keys.\<close>

definition stores_fill :: "(string \<times> fill) list" where
  "stores_fill = [(''store_name'', Const (CStr '''')), (''region'', Const (CStr ''''))]"

definition methods_fill :: "(string \<times> fill) list" where
  "methods_fill = [(''method_name'', Callable (\<lambda>x. x))]"

definition campaigns_fill :: "(string \<times> fill) list" where
  "campaigns_fill = [(''campaign_name'', Const (CStr '''')), (''start_date'', Const (CStr '''')),
     (''end_date'', Const (CStr ''''))]"

definition customers_fill :: "(string \<times> fill) list" where
  "customers_fill = [(''name'', Const (CStr '''')), (''region'', Const (CStr '''')),
     (''join_date'', Const (CStr '''')), (''last_purchase_date'', Const (CStr '''')),
     (''email_opt_in'', Const (CInt 0))]"

definition products_fill :: "(string \<times> fill) list" where
  "products_fill = [(''product_name'', Const (CStr '''')), (''category'', Const (CStr '''')),
     (''unit_price'', Const (CFloat (Fin 0))), (''stock_level'', Const (CInt 0)),
     (''discontinued'', Const (CInt 0))]"

text \<open>The five (key column, default attributes) pairs of \<^verbatim>\<open>load_dw\<close>.\<close>

definition foreign_keys :: "(string \<times> (string \<times> fill) list) list" where
  "foreign_keys = [(''store_id'', stores_fill), (''payment_method_id'', methods_fill),
     (''campaign_id'', campaigns_fill), (''customer_id'', customers_fill),
     (''product_id'', products_fill)]"

section \<open>Dates\<close>

text \<open>
  A parsed date (a pandas \<^verbatim>\<open>Timestamp\<close> at midnight) is its year, month and day.  With
  \<^verbatim>\<open>errors="coerce"\<close>, \<^verbatim>\<open>pd.to_datetime\<close> gives the missing date \<^verbatim>\<open>NaT\<close>, here \<open>None\<close>,
  for a missing cell, for a cell the format does not match, for a day that is not in the
  calendar and for a date outside the range of \<^verbatim>\<open>Timestamp\<close> (1677-09-22 to 2262-04-11).
\<close>

type_synonym timestamp = "nat \<times> nat \<times> nat"

definition is_leap :: "nat \<Rightarrow> bool" where
  "is_leap y = (y mod 4 = 0 \<and> (y mod 100 \<noteq> 0 \<or> y mod 400 = 0))"

definition days_in_month :: "nat \<Rightarrow> nat \<Rightarrow> nat" where
  "days_in_month y m =
     (if m = 2 then (if is_leap y then 29 else 28)
      else if m = 4 \<or> m = 6 \<or> m = 9 \<or> m = 11 then 30 else 31)"

fun date_le :: "timestamp \<Rightarrow> timestamp \<Rightarrow> bool" where
  "date_le (y1, m1, d1) (y2, m2, d2) =
     (y1 < y2 \<or> (y1 = y2 \<and> (m1 < m2 \<or> (m1 = m2 \<and> d1 \<le> d2))))"

fun valid_timestamp :: "timestamp \<Rightarrow> bool" where
  "valid_timestamp (y, m, d) =
     (1 \<le> m \<and> m \<le> 12 \<and> 1 \<le> d \<and> d \<le> days_in_month y m \<and>
      date_le (1677, 9, 22) (y, m, d) \<and> date_le (y, m, d) (2262, 4, 11))"

definition to_datetime :: "pylib \<Rightarrow> cell \<Rightarrow> timestamp option" where
  "to_datetime L c =
     (if isna c then None
      else case strptime L c of
             None \<Rightarrow> None
           | Some t \<Rightarrow> if valid_timestamp t then Some t else None)"

text \<open>\<^verbatim>\<open>strftime("%Y-%m-%d")\<close>: four digits of year, two of month, two of day.\<close>

fun strftime :: "timestamp \<Rightarrow> string" where
  "strftime (y, m, d) =
     [digit_char (y div 1000 mod 10), digit_char (y div 100 mod 10), digit_char (y div 10 mod 10),
      digit_char (y mod 10), CHR ''-'', digit_char (m div 10 mod 10), digit_char (m mod 10),
      CHR ''-'', digit_char (d div 10 mod 10), digit_char (d mod 10)]"

text \<open>The accessors \<^verbatim>\<open>.dt.year\<close>, \<^verbatim>\<open>.dt.quarter\<close>, \<^verbatim>\<open>.dt.month\<close>, \<^verbatim>\<open>.dt.day\<close>.\<close>

fun year :: "timestamp \<Rightarrow> nat" where "year (y, m, d) = y"

fun month :: "timestamp \<Rightarrow> nat" where "month (y, m, d) = m"

fun day :: "timestamp \<Rightarrow> nat" where "day (y, m, d) = d"

fun quarter :: "timestamp \<Rightarrow> nat" where "quarter (y, m, d) = (m - 1) div 3 + 1"

text \<open>
  The number of days from 1970-01-01 to a date of the Gregorian calendar, and
  \<^verbatim>\<open>.dt.dayofweek\<close>, which counts Monday as 0 and Sunday as 6; 1970-01-01 was a Thursday.
\<close>

fun days_from_epoch :: "timestamp \<Rightarrow> int" where
  "days_from_epoch (y, m, d) =
     (let y' = (if m \<le> 2 then int y - 1 else int y);
          era = y' div 400;
          yoe = y' mod 400;
          mp = (int m + 9) mod 12;
          doy = (153 * mp + 2) div 5 + int d - 1;
          doe = yoe * 365 + yoe div 4 - yoe div 100 + doy
      in era * 146097 + doe - 719468)"

definition dayofweek :: "timestamp \<Rightarrow> nat" where
  "dayofweek t = nat ((days_from_epoch t + 3) mod 7)"

section \<open>Numbers\<close>

text \<open>
  \<^verbatim>\<open>pd.to_numeric(errors="coerce")\<close> on one cell: a number stays, a boolean counts as 1 or 0,
  a string is read as a number, and what cannot be read is missing.
\<close>

definition to_numeric :: "pylib \<Rightarrow> cell \<Rightarrow> cell" where
  "to_numeric L c =
     (case c of
        CStr s \<Rightarrow> (case parse_numeric L s of
                     None \<Rightarrow> CNaN
                   | Some (Inl i) \<Rightarrow> CInt i
                   | Some (Inr f) \<Rightarrow> CFloat f)
      | CNone \<Rightarrow> CNaN
      | CBool b \<Rightarrow> CInt (if b then 1 else 0)
      | _ \<Rightarrow> c)"

definition is_bool :: "cell \<Rightarrow> bool" where
  "is_bool c = (case c of CBool b \<Rightarrow> True | _ \<Rightarrow> False)"

text \<open>
  On a column: a column of booleans is returned as it is, any other becomes a column of
  numbers, of floats as soon as one cell is a float or is missing.
\<close>

definition to_numeric_series :: "pylib \<Rightarrow> series \<Rightarrow> series" where
  "to_numeric_series L s = (if list_all is_bool s then s else upcast (map (to_numeric L) s))"

definition fillna :: "cell \<Rightarrow> cell \<Rightarrow> cell" where
  "fillna v c = (if isna c then v else c)"

text \<open>The conversion of a float to an integer drops the fraction, towards zero.\<close>

definition int_part :: "rat \<Rightarrow> int" where
  "int_part q = (if q < 0 then - \<lfloor>- q\<rfloor> else \<lfloor>q\<rfloor>)"

text \<open>
  The target of \<^verbatim>\<open>astype(int)\<close> is \<^verbatim>\<open>int64\<close>: a float whose integer part has no 64-bit
  representation converts to the least 64-bit integer.
\<close>

definition int64_of_float :: "rat \<Rightarrow> int" where
  "int64_of_float q =
     (if - (2 ^ 63) \<le> int_part q \<and> int_part q < 2 ^ 63 then int_part q else - (2 ^ 63))"

text \<open>
  \<^verbatim>\<open>astype(int)\<close>, cell by cell; pandas refuses to convert a missing value or an infinity.
\<close>

fun astype_int :: "cell \<Rightarrow> error + cell" where
  "astype_int (CInt i) = Inr (CInt i)"
| "astype_int (CBool b) = Inr (CInt (if b then 1 else 0))"
| "astype_int (CFloat (Fin q)) = Inr (CInt (int64_of_float q))"
| "astype_int (CFloat PInf) = Inl IntCastingNaNError"
| "astype_int (CFloat NInf) = Inl IntCastingNaNError"
| "astype_int CNaN = Inl IntCastingNaNError"
| "astype_int CNone = Inl IntCastingNaNError"
| "astype_int (CStr s) = Inl ValueError"

text \<open>The first error of a list of results, or all the values.\<close>

fun sequence :: "(error + 'a) list \<Rightarrow> error + 'a list" where
  "sequence [] = Inr []"
| "sequence (x # xs) =
     (case x of
        Inl e \<Rightarrow> Inl e
      | Inr v \<Rightarrow> (case sequence xs of Inl e \<Rightarrow> Inl e | Inr vs \<Rightarrow> Inr (v # vs)))"

text \<open>
  The helper \<^verbatim>\<open>_num(series, as_int)\<close>.  Only a float column has missing values after
  \<^verbatim>\<open>to_numeric\<close>, so that the 0 of \<^verbatim>\<open>fillna(0)\<close> is stored as the float 0.0.
\<close>

definition num :: "pylib \<Rightarrow> bool \<Rightarrow> series \<Rightarrow> error + series" where
  "num L as_int series =
     (let s = map (fillna (CFloat (Fin 0))) (to_numeric_series L series)
      in if as_int then sequence (map astype_int s) else Inr s)"

section \<open>The Fact Builder\<close>

text \<open>\<^verbatim>\<open>df.rename(columns=m)\<close> gives each column named in \<open>m\<close> its new name.\<close>

definition rename_columns :: "(string \<times> string) list \<Rightarrow> frame \<Rightarrow> frame" where
  "rename_columns m df = map (\<lambda>(c, s). (case map_of m c of None \<Rightarrow> c | Some c' \<Rightarrow> c', s)) df"

definition sales_columns :: "(string \<times> string) list" where
  "sales_columns = [(''TransactionID'', ''sale_id''), (''SaleDate'', ''date''),
     (''CustomerID'', ''customer_id''), (''ProductID'', ''product_id''),
     (''StoreID'', ''store_id''), (''CampaignID'', ''campaign_id''),
     (''SaleAmount'', ''sales_amount''), (''Quantity'', ''quantity''),
     (''PaymentMethod'', ''payment_method_id'')]"

text \<open>\<^verbatim>\<open>s[mask]\<close> and \<^verbatim>\<open>df[mask]\<close>: the rows where the mask is true.\<close>

definition keep :: "bool list \<Rightarrow> 'a list \<Rightarrow> 'a list" where
  "keep flags s = map snd (filter fst (zip flags s))"

definition filter_rows :: "bool list \<Rightarrow> frame \<Rightarrow> frame" where
  "filter_rows flags df = map (\<lambda>(c, s). (c, keep flags s)) df"

text \<open>\<^verbatim>\<open>astype(str).replace({"": v})\<close>, cell by cell.\<close>

definition str_or :: "pylib \<Rightarrow> string \<Rightarrow> cell \<Rightarrow> cell" where
  "str_or L v c = (if astype_str L c = '''' then CStr v else CStr (astype_str L c))"

text \<open>\<^verbatim>\<open>astype(str).replace({"": None, "nan": None})\<close>, cell by cell.\<close>

definition str_or_none :: "pylib \<Rightarrow> cell \<Rightarrow> cell" where
  "str_or_none L c =
     (if astype_str L c = '''' \<or> astype_str L c = ''nan'' then CNone else CStr (astype_str L c))"

text \<open>
  \<^verbatim>\<open>df[c] = s\<close> on a frame without rows, for a series \<open>s\<close> of \<open>n > 0\<close> cells: pandas first
  gives the frame the index of the series, and every column \<open>n\<close> missing cells.
\<close>

definition reindex_rows :: "nat \<Rightarrow> frame \<Rightarrow> frame" where
  "reindex_rows n df = map (\<lambda>(c, s). (c, replicate n CNaN)) df"

text \<open>
  \<^verbatim>\<open>normalize_sales\<close>.  The series \<^verbatim>\<open>dt.dt.strftime(...)\<close> has a cell for every input row,
  missing where the date is; assigned to the filtered frame it is aligned to the rows that
  are left.  When no date has parsed and the table has rows, the filtered frame has no row
  and the assignment re-indexes it to all the input rows, with missing cells throughout.
  \<^verbatim>\<open>df.get(c, default)\<close> gives the default, a string, when the frame has no column \<^verbatim>\<open>c\<close>,
  and a string has no \<^verbatim>\<open>astype\<close>.
\<close>

definition normalize_sales :: "pylib \<Rightarrow> frame \<Rightarrow> error + frame" where
  "normalize_sales L df0 =
     (let df = rename_columns sales_columns df0 in
      case getcol df ''date'' of Inl e \<Rightarrow> Inl e | Inr dates \<Rightarrow>
      let dt = map (to_datetime L) dates;
          df = filter_rows (map (\<lambda>t. t \<noteq> None) dt) df;
          df = (if dt \<noteq> [] \<and> list_all (\<lambda>t. t = None) dt then reindex_rows (length dt) df
                else setcol df ''date''
                       (map (\<lambda>t. CStr (strftime t)) (List.map_filter id dt))) in
      case getcol df ''quantity'' of Inl e \<Rightarrow> Inl e | Inr quantity \<Rightarrow>
      case num L True quantity of Inl e \<Rightarrow> Inl e | Inr quantity' \<Rightarrow>
      let df = setcol df ''quantity'' quantity' in
      case getcol df ''sales_amount'' of Inl e \<Rightarrow> Inl e | Inr sales_amount \<Rightarrow>
      case num L False sales_amount of Inl e \<Rightarrow> Inl e | Inr sales_amount' \<Rightarrow>
      let df = setcol df ''sales_amount'' sales_amount' in
      case map_of df ''store_id'' of None \<Rightarrow> Inl AttributeError | Some store_id \<Rightarrow>
      let df = setcol df ''store_id'' (map (str_or L ''UNKNOWN-STORE'') store_id) in
      case map_of df ''payment_method_id'' of None \<Rightarrow> Inl AttributeError | Some payment \<Rightarrow>
      let df = setcol df ''payment_method_id'' (map (str_or L ''UNKNOWN'') payment) in
      case getcol df ''campaign_id'' of Inl e \<Rightarrow> Inl e | Inr campaign_id \<Rightarrow>
      Inr (setcol df ''campaign_id'' (map (str_or_none L) campaign_id)))"

section \<open>The upstream payment canonicaliser\<close>

text \<open>
  \<^verbatim>\<open>normalize_payment\<close> of \<^verbatim>\<open>prepare_sales_data.py\<close>, on strings of ASCII characters:
  \<^verbatim>\<open>strip\<close> removes the white space at both ends, \<^verbatim>\<open>lower\<close> maps the capital letters to
  small ones.
\<close>

definition PAYMENT_CANON :: "(string \<times> string) list" where
  "PAYMENT_CANON = [(''visa'', ''Visa''), (''mastercard'', ''Mastercard''), (''amex'', ''Amex''),
     (''americanexpress'', ''Amex''), (''discover'', ''Discover''), (''cash'', ''Cash''),
     (''applepay'', ''ApplePay''), (''googlepay'', ''GooglePay'')]"

definition is_space :: "char \<Rightarrow> bool" where
  "is_space c = (of_char c \<in> {9, 10, 11, 12, 13, 28, 29, 30, 31, 32 :: nat})"

definition strip :: "string \<Rightarrow> string" where
  "strip s = rev (dropWhile is_space (rev (dropWhile is_space s)))"

definition lower_char :: "char \<Rightarrow> char" where
  "lower_char c = (if 65 \<le> (of_char c :: nat) \<and> (of_char c :: nat) \<le> 90
                   then char_of (of_char c + (32 :: nat)) else c)"

definition lower :: "string \<Rightarrow> string" where
  "lower s = map lower_char s"

definition normalize_payment :: "pylib \<Rightarrow> cell \<Rightarrow> string" where
  "normalize_payment L pm =
     (if isna pm \<or> strip (astype_str L pm) = '''' then ''Unknown''
      else let key = filter (\<lambda>c. c \<noteq> CHR '' '') (lower (strip (astype_str L pm)))
           in case map_of PAYMENT_CANON key of None \<Rightarrow> ''Unknown'' | Some v \<Rightarrow> v)"

section \<open>The Dimension Synthesizer\<close>

text \<open>
  For each cell of a column, whether its value has not occurred before in the column:
  \<^verbatim>\<open>drop_duplicates\<close> keeps the first row of each value.
\<close>

fun first_flags :: "'a list \<Rightarrow> 'a list \<Rightarrow> bool list" where
  "first_flags seen [] = []"
| "first_flags seen (x # xs) = (x \<notin> set seen) # first_flags (x # seen) xs"

definition drop_duplicates :: "string \<Rightarrow> frame \<Rightarrow> error + frame" where
  "drop_duplicates c df =
     (case getcol df c of
        Inl e \<Rightarrow> Inl e
      | Inr s \<Rightarrow> Inr (filter_rows (first_flags [] s) df))"

text \<open>The text of a cell of a column of strings.\<close>

definition str_of :: "cell \<Rightarrow> string" where
  "str_of c = (case c of CStr s \<Rightarrow> s | _ \<Rightarrow> [])"

text \<open>The rows of a frame at the given positions, in the given order.\<close>

definition take_rows :: "nat list \<Rightarrow> frame \<Rightarrow> frame" where
  "take_rows idx df = map (\<lambda>(c, s). (c, map (\<lambda>i. s ! i) idx)) df"

text \<open>
  \<^verbatim>\<open>df.sort_values(c)\<close> for a column of strings: the rows in ascending order of the string,
  which is the order of the code points.
\<close>

definition sort_values :: "string \<Rightarrow> frame \<Rightarrow> error + frame" where
  "sort_values c df =
     (case getcol df c of
        Inl e \<Rightarrow> Inl e
      | Inr s \<Rightarrow> Inr (take_rows (sort_key (\<lambda>i. str_of (s ! i)) [0..<length s]) df))"

definition build_dates_from_sales :: "pylib \<Rightarrow> frame \<Rightarrow> error + frame" where
  "build_dates_from_sales L sales_df =
     (case getcol sales_df ''date'' of
        Inl e \<Rightarrow> Inl e
      | Inr dates \<Rightarrow>
          (let s = List.map_filter (to_datetime L) dates;
               df = [(''date'', map (\<lambda>t. CStr (strftime t)) s),
                     (''year'', map (\<lambda>t. CInt (int (year t))) s),
                     (''quarter'', map (\<lambda>t. CInt (int (quarter t))) s),
                     (''month'', map (\<lambda>t. CInt (int (month t))) s),
                     (''day'', map (\<lambda>t. CInt (int (day t))) s),
                     (''is_weekend'',
                        map (\<lambda>t. CInt (if dayofweek t \<in> set [5, 6] then 1 else 0)) s)]
           in case drop_duplicates ''date'' df of
                Inl e \<Rightarrow> Inl e
              | Inr df \<Rightarrow> sort_values ''date'' df))"

text \<open>
  \<^verbatim>\<open>build_dim_from_sales\<close>: the distinct non-missing values of a key column of the facts, as
  strings, with the default attributes of the schema.
\<close>

definition build_dim_from_sales :: "pylib \<Rightarrow> frame \<Rightarrow> string \<Rightarrow> string \<Rightarrow> error + frame" where
  "build_dim_from_sales L sales_df id_col schema =
     (case getcol sales_df id_col of
        Inl e \<Rightarrow> Inl e
      | Inr col \<Rightarrow>
          (let strs = map (astype_str L) (dropna col);
               ids = map CStr (keep (first_flags [] strs) strs);
               blank = replicate (length ids) (CStr '''')
           in if schema = ''stores'' then
                Inr [(''store_id'', ids), (''store_name'', blank), (''region'', blank)]
              else if schema = ''campaigns'' then
                Inr [(''campaign_id'', ids), (''campaign_name'', blank), (''start_date'', blank),
                     (''end_date'', blank)]
              else if schema = ''payment_methods'' then
                Inr [(''payment_method_id'', ids), (''method_name'', ids)]
              else Inr [(id_col, ids)]))"

section \<open>Auxiliary notions for the proofs\<close>

text \<open>Every column of a frame, which has at least one column, has \<open>n\<close> cells.\<close>

definition cols_len :: "nat \<Rightarrow> frame \<Rightarrow> bool" where
  "cols_len n df = (df \<noteq> [] \<and> (\<forall>cs \<in> set df. length (snd cs) = n))"

definition is_str :: "cell \<Rightarrow> bool" where
  "is_str c = (case c of CStr s \<Rightarrow> True | _ \<Rightarrow> False)"

text \<open>
  The input table has no column that already bears the name of a warehouse field, so that
  renaming gives no two columns the same name.
\<close>

definition fresh_header :: "frame \<Rightarrow> bool" where
  "fresh_header df = list_all (\<lambda>(old, new). new \<notin> set (map fst df)) sales_columns"

text \<open>
  A cleaned sales table: it has the nine columns of the sales file, and no column that
  already bears the name of a warehouse field, so that renaming gives no two columns the
  same name.
\<close>

definition sales_table :: "frame \<Rightarrow> bool" where
  "sales_table df =
     (fresh_header df \<and> list_all (\<lambda>(old, new). old \<in> set (map fst df)) sales_columns)"

text \<open>The number that \<^verbatim>\<open>to_numeric\<close> reads in a cell, if it reads a finite one.\<close>

definition numeric_value :: "pylib \<Rightarrow> cell \<Rightarrow> rat option" where
  "numeric_value L c =
     (case to_numeric L c of
        CInt i \<Rightarrow> Some (of_int i)
      | CFloat f \<Rightarrow> (case f of Fin v \<Rightarrow> Some v | _ \<Rightarrow> None)
      | _ \<Rightarrow> None)"

text \<open>
  The integer \<open>n\<close> is 0 for a cell without a number and the number without its fraction
  otherwise; numbers beyond \<open>2^53\<close>, where floats no longer hold every integer, are left
  open.
\<close>

definition truncated :: "pylib \<Rightarrow> cell \<Rightarrow> int \<Rightarrow> bool" where
  "truncated L c n =
     ((numeric_value L c = None \<longrightarrow> n = 0) \<and>
      (\<forall>v. numeric_value L c = Some v \<longrightarrow> \<bar>v\<bar> \<le> 2 ^ 53 \<longrightarrow> n = int_part v))"

text \<open>A cell from which \<^verbatim>\<open>to_numeric\<close> reads no infinity.\<close>

definition no_infinity :: "pylib \<Rightarrow> cell \<Rightarrow> bool" where
  "no_infinity L c = (to_numeric L c \<noteq> CFloat PInf \<and> to_numeric L c \<noteq> CFloat NInf)"

text \<open>The rows of a sales table that the Fact Builder keeps: those with a date.\<close>

definition dated :: "pylib \<Rightarrow> series \<Rightarrow> bool list" where
  "dated L dates = map (\<lambda>c. to_datetime L c \<noteq> None) dates"

text \<open>The calendar rows of a list of dates, as \<^verbatim>\<open>build_dates_from_sales\<close> lays them out.\<close>

definition calendar_frame :: "timestamp list \<Rightarrow> frame" where
  "calendar_frame ts =
     [(''date'', map (\<lambda>t. CStr (strftime t)) ts),
      (''year'', map (\<lambda>t. CInt (int (year t))) ts),
      (''quarter'', map (\<lambda>t. CInt (int (quarter t))) ts),
      (''month'', map (\<lambda>t. CInt (int (month t))) ts),
      (''day'', map (\<lambda>t. CInt (int (day t))) ts),
      (''is_weekend'', map (\<lambda>t. CInt (if dayofweek t \<in> set [5, 6] then 1 else 0)) ts)]"

section \<open>Sample tables\<close>

text \<open>
  A library instance for running the definitions on concrete tables: it reads a string of
  digits as an integer and a string of the shape \<^verbatim>\<open>dddd-dd-dd\<close> as a date.
\<close>

definition digit_val :: "char \<Rightarrow> nat option" where
  "digit_val c = (if 48 \<le> (of_char c :: nat) \<and> (of_char c :: nat) \<le> 57
                  then Some (of_char c - 48) else None)"

fun digits_val :: "nat \<Rightarrow> string \<Rightarrow> nat option" where
  "digits_val acc [] = Some acc"
| "digits_val acc (c # cs) =
     (case digit_val c of None \<Rightarrow> None | Some v \<Rightarrow> digits_val (10 * acc + v) cs)"

definition sample_numeric :: "string \<Rightarrow> (int + pyfloat) option" where
  "sample_numeric s =
     (if s = [] then None
      else case digits_val 0 s of None \<Rightarrow> None | Some n \<Rightarrow> Some (Inl (int n)))"

definition sample_strptime :: "cell \<Rightarrow> timestamp option" where
  "sample_strptime c =
     (case c of
        CStr [y1, y2, y3, y4, h1, m1, m2, h2, d1, d2] \<Rightarrow>
          (if h1 = CHR ''-'' \<and> h2 = CHR ''-'' then
             (case (digits_val 0 [y1, y2, y3, y4], digits_val 0 [m1, m2], digits_val 0 [d1, d2]) of
                (Some y, Some m, Some d) \<Rightarrow> Some (y, m, d)
              | _ \<Rightarrow> None)
           else None)
      | _ \<Rightarrow> None)"

definition sample_lib :: pylib where
  "sample_lib = \<lparr> float_repr = (\<lambda>f. ''0.0''), parse_numeric = sample_numeric,
     strptime = sample_strptime \<rparr>"

definition sample_sales_keys :: frame where
  "sample_sales_keys = [(''customer_id'', [CInt 1001, CNaN, CInt 7])]"

definition sample_customers :: frame where
  "sample_customers = [(''customer_id'', [CInt 7]), (''name'', [CStr ''Ann'']),
     (''region'', [CStr ''east'']), (''join_date'', [CStr ''2023-01-05'']),
     (''last_purchase_date'', [CStr ''2024-03-09'']), (''email_opt_in'', [CInt 1])]"

definition sample_customers_closed :: frame where
  "sample_customers_closed = [(''customer_id'', [CInt 7, CStr ''1001'']),
     (''name'', [CStr ''Ann'', CStr '''']), (''region'', [CStr ''east'', CStr '''']),
     (''join_date'', [CStr ''2023-01-05'', CStr '''']),
     (''last_purchase_date'', [CStr ''2024-03-09'', CStr '''']),
     (''email_opt_in'', [CInt 1, CInt 0])]"

definition sample_store_keys :: frame where
  "sample_store_keys = [(''store_id'', [CStr ''401'', CStr ''402''])]"

definition sample_stores :: frame where
  "sample_stores = [(''store_id'', [CStr ''401'']), (''store_name'', [CStr ''Main'']),
     (''region'', [CStr ''east''])]"

text \<open>A products table with a price that is an integer, and a fact table with a new product.\<close>

definition sample_product_keys :: frame where
  "sample_product_keys = [(''product_id'', [CStr ''101'', CStr ''102''])]"

definition sample_products :: frame where
  "sample_products = [(''product_id'', [CStr ''101'']), (''product_name'', [CStr ''Lamp'']),
     (''category'', [CStr ''home'']), (''unit_price'', [CInt 10]), (''stock_level'', [CInt 4]),
     (''discontinued'', [CInt 0])]"

definition sample_products_closed :: frame where
  "sample_products_closed = [(''product_id'', [CStr ''101'', CStr ''102'']),
     (''product_name'', [CStr ''Lamp'', CStr '''']), (''category'', [CStr ''home'', CStr '''']),
     (''unit_price'', [CFloat (Fin 10), CFloat (Fin 0)]), (''stock_level'', [CInt 4, CInt 0]),
     (''discontinued'', [CInt 0, CInt 0])]"

text \<open>Default attributes that name the key column itself.\<close>

definition key_fill :: "(string \<times> fill) list" where
  "key_fill = [(''store_id'', Const (CStr ''X''))]"

text \<open>
  A cleaned sales table of three rows: the first has no store, no campaign and no quantity,
  the second a date the format does not match, the third a negative quantity and no payment
  method.
\<close>

definition sample_sales :: frame where
  "sample_sales = [(''TransactionID'', [CInt 1, CInt 2, CInt 3]),
     (''SaleDate'', [CStr ''2024-03-09'', CStr ''not-a-date'', CStr ''2024-03-11'']),
     (''CustomerID'', [CInt 1001, CInt 1002, CInt 1001]),
     (''ProductID'', [CInt 101, CInt 102, CInt 101]),
     (''StoreID'', [CNaN, CStr ''S-401'', CStr ''S-402'']),
     (''CampaignID'', [CNaN, CStr ''C-1'', CStr ''C-2'']),
     (''SaleAmount'', [CFloat (Fin (1999 / 100)), CFloat (Fin 5), CNaN]),
     (''Quantity'', [CNaN, CFloat (Fin 1), CFloat (Fin (- 3))]),
     (''PaymentMethod'', [CStr ''VISA'', CStr ''Cash'', CNaN])]"

definition sample_facts :: frame where
  "sample_facts = [(''sale_id'', [CInt 1, CInt 3]),
     (''date'', [CStr ''2024-03-09'', CStr ''2024-03-11'']),
     (''customer_id'', [CInt 1001, CInt 1001]),
     (''product_id'', [CInt 101, CInt 101]),
     (''store_id'', [CStr ''nan'', CStr ''S-402'']),
     (''campaign_id'', [CNone, CStr ''C-2'']),
     (''sales_amount'', [CFloat (Fin (1999 / 100)), CFloat (Fin 0)]),
     (''quantity'', [CInt 0, CInt (- 3)]),
     (''payment_method_id'', [CStr ''VISA'', CStr ''nan''])]"

text \<open>A cleaned sales table of two rows, neither with a date that the format matches.\<close>

definition undated_sales :: frame where
  "undated_sales = [(''TransactionID'', [CInt 1, CInt 2]),
     (''SaleDate'', [CStr ''09/03/2024'', CNaN]),
     (''CustomerID'', [CInt 1001, CInt 1002]),
     (''ProductID'', [CInt 101, CInt 102]),
     (''StoreID'', [CStr ''S-401'', CStr ''S-402'']),
     (''CampaignID'', [CStr ''C-1'', CStr ''C-2'']),
     (''SaleAmount'', [CFloat (Fin (1999 / 100)), CFloat (Fin 5)]),
     (''Quantity'', [CInt 2, CInt 1]),
     (''PaymentMethod'', [CStr ''Visa'', CStr ''Cash''])]"

definition undated_facts :: frame where
  "undated_facts = [(''sale_id'', [CNaN, CNaN]), (''date'', [CNaN, CNaN]),
     (''customer_id'', [CNaN, CNaN]), (''product_id'', [CNaN, CNaN]),
     (''store_id'', [CStr ''nan'', CStr ''nan'']), (''campaign_id'', [CNone, CNone]),
     (''sales_amount'', [CFloat (Fin 0), CFloat (Fin 0)]), (''quantity'', [CInt 0, CInt 0]),
     (''payment_method_id'', [CStr ''nan'', CStr ''nan''])]"

text \<open>A fact table with a repeated date, a date out of order and a text that is no date.\<close>

definition sample_dated_facts :: frame where
  "sample_dated_facts = [(''sale_id'', [CInt 1, CInt 2, CInt 3, CInt 4]),
     (''date'', [CStr ''2024-03-11'', CStr ''2024-03-09'', CStr ''2024-03-11'', CStr ''bad''])]"

definition sample_dates :: frame where
  "sample_dates = [(''date'', [CStr ''2024-03-09'', CStr ''2024-03-11'']),
     (''year'', [CInt 2024, CInt 2024]), (''quarter'', [CInt 1, CInt 1]),
     (''month'', [CInt 3, CInt 3]), (''day'', [CInt 9, CInt 11]),
     (''is_weekend'', [CInt 1, CInt 0])]"

section \<open>Properties of the Referential Closure Enforcer\<close>

lemma map_of_replace:
  "map_of (map (\<lambda>(n, t). if n = c then (n, s) else (n, t)) df) k =
     (if k = c then (if c \<in> fst ` set df then Some s else None) else map_of df k)"
  by (induction df) (auto simp: rev_image_eqI)

lemma map_of_snoc:
  "map_of (df @ [(c, s)]) k =
     (case map_of df k of Some t \<Rightarrow> Some t | None \<Rightarrow> if k = c then Some s else None)"
  by (induction df) auto

lemma map_of_None_iff: "map_of df k = None \<longleftrightarrow> k \<notin> fst ` set df"
  by (induction df) auto

lemma map_of_Some_fst: "map_of df k = Some s \<Longrightarrow> k \<in> fst ` set df"
  using map_of_None_iff [of df k] by simp

lemma map_of_setcol: "map_of (setcol df c s) k = (if k = c then Some s else map_of df k)"
proof (cases "c \<in> fst ` set df")
  case True
  then show ?thesis by (simp add: setcol_def map_of_replace)
next
  case False
  then have "map_of df c = None" by (simp add: map_of_None_iff)
  with False show ?thesis
    by (auto simp: setcol_def map_of_snoc simp del: map_of_append split: option.splits)
qed

lemma nrows_cols_len: "cols_len n df \<Longrightarrow> nrows df = n"
  by (cases df) (auto simp: cols_len_def nrows_def)

lemma cols_len_setcol: "cols_len n df \<Longrightarrow> length s = n \<Longrightarrow> cols_len n (setcol df c s)"
  by (auto simp: cols_len_def setcol_def)

lemma length_column_or_nan: "cols_len n df \<Longrightarrow> length (column_or_nan df c) = n"
  by (auto simp: column_or_nan_def nrows_cols_len split: option.splits dest!: map_of_SomeD)
     (auto simp: cols_len_def)

lemma length_upcast: "length (upcast s) = length s"
  by (simp add: upcast_def)

lemma length_hold_na: "length (hold_na s) = length s"
  by (simp add: hold_na_def)

lemma upcast_strings: "ms \<noteq> [] \<Longrightarrow> upcast (s @ map CStr ms) = s @ map CStr ms"
  by (cases ms) (simp_all add: upcast_def is_number_def)

lemma hold_na_strings: "hold_na (map CStr ms) = map CStr ms"
  by (cases ms) (simp_all add: hold_na_def is_number_def)

lemma cols_len_fill_column: "cols_len n add \<Longrightarrow> cols_len n (fill_column key add cv)"
  by (cases cv; cases "snd cv")
     (auto simp: fill_column_def nrows_cols_len length_column_or_nan length_upcast
        intro!: cols_len_setcol)

lemma cols_len_foldl: "cols_len n add \<Longrightarrow> cols_len n (foldl (fill_column key) add fc)"
  by (induction fc arbitrary: add) (auto simp: cols_len_fill_column)

lemma key_fill_column: "fst cv \<noteq> key \<Longrightarrow> map_of (fill_column key add cv) key = map_of add key"
  by (cases cv; cases "snd cv") (auto simp: fill_column_def map_of_setcol)

lemma key_foldl:
  "key \<notin> fst ` set fc \<Longrightarrow> map_of (foldl (fill_column key) add fc) key = map_of add key"
  by (induction fc arbitrary: add) (auto simp: key_fill_column)

lemma map_of_map_snd:
  "map_of (map (\<lambda>(c, s). (c, f c s)) a) k = map_option (f k) (map_of a k)"
  by (induction a) auto

lemma map_of_filter_fst:
  "map_of (filter (\<lambda>(c, s). P c) b) k = (if P k then map_of b k else None)"
  by (induction b) auto

lemma concat_frames_Nil: "concat_frames [] b = b"
  by (simp add: concat_frames_def)

lemma map_of_concat_frames:
  assumes "a \<noteq> []"
  shows "map_of (concat_frames a b) k =
     (case map_of a k of
        Some s \<Rightarrow> Some (case map_of b k of
                          None \<Rightarrow> hold_na s @ replicate (nrows b) CNaN
                        | Some t \<Rightarrow> upcast (s @ t))
      | None \<Rightarrow> map_option (\<lambda>t. replicate (nrows a) CNaN @ hold_na t) (map_of b k))"
proof -
  let ?f = "\<lambda>(c::string) t. replicate (nrows a) CNaN @ hold_na t"
  let ?g = "\<lambda>(c::string) s. case map_of b c of
              None \<Rightarrow> hold_na s @ replicate (nrows b) CNaN | Some t \<Rightarrow> upcast (s @ t)"
  let ?P = "\<lambda>c::string. c \<notin> set (map fst a)"
  have "map_of (map (\<lambda>(c, s). (c, ?f c s)) (filter (\<lambda>(c, s). ?P c) b)) k =
        map_option (?f k) (map_of (filter (\<lambda>(c, s). ?P c) b) k)"
    by (rule map_of_map_snd)
  also have "\<dots> = (if ?P k then map_option (?f k) (map_of b k) else None)"
    by (subst map_of_filter_fst) simp
  finally have right: "map_of (map (\<lambda>(c, s). (c, ?f c s)) (filter (\<lambda>(c, s). ?P c) b)) k =
        (if ?P k then map_option (?f k) (map_of b k) else None)" .
  have left: "map_of (map (\<lambda>(c, s). (c, ?g c s)) a) k = map_option (?g k) (map_of a k)"
    by (rule map_of_map_snd)
  from assms have eq: "concat_frames a b =
      map (\<lambda>(c, s). (c, ?g c s)) a @ map (\<lambda>(c, s). (c, ?f c s)) (filter (\<lambda>(c, s). ?P c) b)"
    by (simp add: concat_frames_def)
  show ?thesis
    unfolding eq map_of_append map_add_def left right
    by (auto simp: map_of_None_iff split: option.splits dest: map_of_Some_fst)
qed

lemma ensure_Inr:
  assumes "ensure_dim_covers_sales_keys L F D k fc = Inr D'"
  shows "\<exists>dk fk. getcol F k = Inr fk \<and> (if \<not> is_empty D then getcol D k else Inr []) = Inr dk \<and>
     D' = (if missing_keys (map (astype_str L) (dropna fk)) (map (astype_str L) dk) = [] then D
           else concat_frames D (foldl (fill_column k)
                  [(k, map CStr (missing_keys (map (astype_str L) (dropna fk)) (map (astype_str L) dk)))] fc))"
  using assms
  by (auto simp: ensure_dim_covers_sales_keys_def Let_def split: sum.splits if_splits)

lemma set_missing_keys: "set (missing_keys need have) = set need - set have"
  by (auto simp: missing_keys_def)

lemma sorted_missing_keys: "sorted (missing_keys need have)"
  by (simp add: missing_keys_def)

lemma distinct_missing_keys: "distinct (missing_keys need have)"
  by (simp add: missing_keys_def)

lemma cols_len_added:
  "cols_len (length missing) (foldl (fill_column k) [(k, map CStr missing)] fc)"
  by (rule cols_len_foldl) (simp add: cols_len_def)

lemma key_added:
  "k \<notin> fst ` set fc \<Longrightarrow>
   map_of (foldl (fill_column k) [(k, map CStr missing)] fc) k = Some (map CStr missing)"
  by (simp add: key_foldl)

lemma key_column_concat:
  assumes "map_of add k = Some (map CStr ms)" and "ms \<noteq> []"
  shows "map_of (concat_frames D add) k = Some (column_or_nan D k @ map CStr ms)"
proof (cases "D = []")
  case True
  with assms show ?thesis by (simp add: concat_frames_Nil column_or_nan_def nrows_def)
next
  case False
  with assms show ?thesis
    by (simp add: map_of_concat_frames column_or_nan_def upcast_strings hold_na_strings
        split: option.splits)
qed

lemma not_empty_concat:
  assumes "cols_len n add" "0 < n"
  shows "\<not> is_empty (concat_frames D add)"
proof (cases D)
  case Nil
  from assms obtain c s rest where add: "add = (c, s) # rest" and "length s = n"
    by (cases add) (auto simp: cols_len_def)
  with Nil assms show ?thesis
    by (simp add: is_empty_def concat_frames_def nrows_def)
next
  case (Cons cs rest)
  obtain c s where cs: "cs = (c, s)" by (cases cs)
  have "0 < length (case map_of add c of
      None \<Rightarrow> hold_na s @ replicate (nrows add) CNaN | Some t \<Rightarrow> upcast (s @ t))"
  proof (cases "map_of add c")
    case None
    with assms show ?thesis by (simp add: nrows_cols_len)
  next
    case (Some t)
    then have "(c, t) \<in> set add" by (rule map_of_SomeD)
    with assms have "length t = n" by (auto simp: cols_len_def)
    with Some assms(2) show ?thesis by (simp add: length_upcast)
  qed
  with Cons cs show ?thesis
    by (simp add: is_empty_def concat_frames_def nrows_def)
qed

lemma dim_keys_column:
  assumes "(if \<not> is_empty D then getcol D k else Inr []) = Inr dk"
  shows "set dk \<subseteq> set (column_or_nan D k)"
  using assms by (auto simp: getcol_def column_or_nan_def split: if_splits option.splits)

text \<open>
  Claim C2, as amended.  When the default attributes do not name the key column,
  \<^verbatim>\<open>ensure_dim_covers_sales_keys\<close> is idempotent: applied again with the same fact table to
  the dimension table it returned, it returns that table unchanged.
\<close>

theorem ensure_idempotent:
  assumes res: "ensure_dim_covers_sales_keys L F D k fc = Inr D'"
    and key: "k \<notin> fst ` set fc"
  shows "ensure_dim_covers_sales_keys L F D' k fc = Inr D'"
proof -
  from ensure_Inr [OF res] obtain dk fk where
    fk: "getcol F k = Inr fk" and
    dk: "(if \<not> is_empty D then getcol D k else Inr []) = Inr dk" and
    D': "D' = (if missing_keys (map (astype_str L) (dropna fk)) (map (astype_str L) dk) = [] then D
           else concat_frames D (foldl (fill_column k)
                  [(k, map CStr (missing_keys (map (astype_str L) (dropna fk)) (map (astype_str L) dk)))] fc))"
    by blast
  define need where "need = map (astype_str L) (dropna fk)"
  define missing where "missing = missing_keys need (map (astype_str L) dk)"
  show ?thesis
  proof (cases "missing = []")
    case True
    with D' have "D' = D" by (simp add: missing_def need_def)
    with res show ?thesis by simp
  next
    case False
    let ?add = "foldl (fill_column k) [(k, map CStr missing)] fc"
    from False D' have D'': "D' = concat_frames D ?add" by (simp add: missing_def need_def)
    have kc: "map_of D' k = Some (column_or_nan D k @ map CStr missing)"
      unfolding D'' by (rule key_column_concat [OF key_added [OF key] False])
    have ne: "\<not> is_empty D'"
      unfolding D'' using False by (intro not_empty_concat [OF cols_len_added]) simp
    have "set need \<subseteq> set (map (astype_str L) dk) \<union> set missing"
      by (auto simp: missing_def set_missing_keys)
    moreover have "set (map (astype_str L) dk) \<subseteq> set (map (astype_str L) (column_or_nan D k))"
      using dim_keys_column [OF dk] by auto
    ultimately have "set need \<subseteq> set (map (astype_str L) (column_or_nan D k @ map CStr missing))"
      by auto
    then have "missing_keys need (map (astype_str L) (column_or_nan D k @ map CStr missing)) = []"
      using set_missing_keys [of need "map (astype_str L) (column_or_nan D k @ map CStr missing)"]
      by (metis Diff_eq_empty_iff set_empty)
    with kc ne fk show ?thesis
      by (simp add: ensure_dim_covers_sales_keys_def getcol_def need_def)
  qed
qed

text \<open>The idempotence theorem at the sample customers table.\<close>

theorem ensure_idempotent_witness:
  "ensure_dim_covers_sales_keys sample_lib sample_sales_keys sample_customers ''customer_id''
     customers_fill = Inr sample_customers_closed \<and>
   ''customer_id'' \<notin> fst ` set customers_fill \<and>
   ensure_dim_covers_sales_keys sample_lib sample_sales_keys sample_customers_closed
     ''customer_id'' customers_fill = Inr sample_customers_closed"
proof -
  have h1: "ensure_dim_covers_sales_keys sample_lib sample_sales_keys sample_customers
     ''customer_id'' customers_fill = Inr sample_customers_closed"
    by code_simp
  have h2: "''customer_id'' \<notin> fst ` set customers_fill"
    by (simp add: customers_fill_def)
  from ensure_idempotent [OF h1 h2] h1 h2 show ?thesis by simp
qed

text \<open>
  Claim C2 as stated, for every choice of default attributes, fails: a default for the key
  column itself overwrites the keys of the added rows, so the second application still
  misses the key \<^verbatim>\<open>402\<close> and adds one more row.
\<close>

theorem ensure_idempotent_counterexample:
  "ensure_dim_covers_sales_keys sample_lib sample_store_keys sample_stores ''store_id'' key_fill =
     Inr [(''store_id'', [CStr ''401'', CStr ''X'']), (''store_name'', [CStr ''Main'', CNaN]),
          (''region'', [CStr ''east'', CNaN])] \<and>
   ensure_dim_covers_sales_keys sample_lib sample_store_keys
     [(''store_id'', [CStr ''401'', CStr ''X'']), (''store_name'', [CStr ''Main'', CNaN]),
      (''region'', [CStr ''east'', CNaN])] ''store_id'' key_fill =
     Inr [(''store_id'', [CStr ''401'', CStr ''X'', CStr ''X'']),
          (''store_name'', [CStr ''Main'', CNaN, CNaN]),
          (''region'', [CStr ''east'', CNaN, CNaN])]"
  by code_simp

lemma ensure_closure:
  assumes res: "ensure_dim_covers_sales_keys L F D k fc = Inr D'"
    and key: "k \<notin> fst ` set fc"
    and fk: "getcol F k = Inr fk"
  shows "astype_str L ` {c \<in> set fk. \<not> isna c} \<subseteq> astype_str L ` set (column_or_nan D' k)"
proof -
  from ensure_Inr [OF res] fk obtain dk where
    dk: "(if \<not> is_empty D then getcol D k else Inr []) = Inr dk" and
    D': "D' = (if missing_keys (map (astype_str L) (dropna fk)) (map (astype_str L) dk) = [] then D
           else concat_frames D (foldl (fill_column k)
                  [(k, map CStr (missing_keys (map (astype_str L) (dropna fk)) (map (astype_str L) dk)))] fc))"
    by auto
  define need where "need = map (astype_str L) (dropna fk)"
  define missing where "missing = missing_keys need (map (astype_str L) dk)"
  have need: "astype_str L ` {c \<in> set fk. \<not> isna c} = set need"
    by (auto simp: need_def dropna_def)
  have split: "set need \<subseteq> astype_str L ` set dk \<union> set missing"
    by (auto simp: missing_def set_missing_keys)
  have dk': "astype_str L ` set dk \<subseteq> astype_str L ` set (column_or_nan D k)"
    using dim_keys_column [OF dk] by auto
  show ?thesis
  proof (cases "missing = []")
    case True
    with D' have "D' = D" by (simp add: missing_def need_def)
    with True split dk' show ?thesis unfolding need by auto
  next
    case False
    with D' have "D' = concat_frames D (foldl (fill_column k) [(k, map CStr missing)] fc)"
      by (simp add: missing_def need_def)
    then have "map_of D' k = Some (column_or_nan D k @ map CStr missing)"
      using key_column_concat [OF key_added [OF key] False] by simp
    then have "column_or_nan D' k = column_or_nan D k @ map CStr missing"
      by (simp add: column_or_nan_def)
    then have "astype_str L ` set (column_or_nan D' k) =
        astype_str L ` set (column_or_nan D k) \<union> set missing"
      by (auto simp: image_Un image_image)
    with split dk' show ?thesis unfolding need by auto
  qed
qed

lemma foreign_keys_not_filled: "(k, fc) \<in> set foreign_keys \<Longrightarrow> k \<notin> fst ` set fc"
  by (auto simp: foreign_keys_def stores_fill_def methods_fill_def campaigns_fill_def
      customers_fill_def products_fill_def)

lemma ensure_key_column:
  assumes res: "ensure_dim_covers_sales_keys L F D k fc = Inr D'"
    and key: "k \<notin> fst ` set fc"
    and fk: "getcol F k = Inr fk"
  shows "\<exists>dk. (if \<not> is_empty D then getcol D k else Inr []) = Inr dk \<and>
     column_or_nan D' k = column_or_nan D k @
       map CStr (missing_keys (map (astype_str L) (dropna fk)) (map (astype_str L) dk))"
proof -
  from ensure_Inr [OF res] fk obtain dk where
    dk: "(if \<not> is_empty D then getcol D k else Inr []) = Inr dk" and
    D': "D' = (if missing_keys (map (astype_str L) (dropna fk)) (map (astype_str L) dk) = [] then D
           else concat_frames D (foldl (fill_column k)
                  [(k, map CStr (missing_keys (map (astype_str L) (dropna fk)) (map (astype_str L) dk)))] fc))"
    by auto
  define missing where "missing = missing_keys (map (astype_str L) (dropna fk)) (map (astype_str L) dk)"
  have "column_or_nan D' k = column_or_nan D k @ map CStr missing"
  proof (cases "missing = []")
    case True
    with D' show ?thesis by (simp add: missing_def)
  next
    case False
    with D' have "D' = concat_frames D (foldl (fill_column k) [(k, map CStr missing)] fc)"
      by (simp add: missing_def)
    then have "map_of D' k = Some (column_or_nan D k @ map CStr missing)"
      using key_column_concat [OF key_added [OF key] False] by simp
    then show ?thesis by (simp add: column_or_nan_def)
  qed
  with dk show ?thesis unfolding missing_def by blast
qed

lemma upcast_append:
  "\<exists>pre ext. upcast (s @ t) = pre @ ext \<and> length ext = length t \<and>
     (pre = s \<or> list_all is_number s \<and> pre = map as_float s)"
proof (cases "list_all is_number (s @ t) \<and> list_ex is_float (s @ t)")
  case True
  have "upcast (s @ t) = map as_float (s @ t)"
    unfolding upcast_def by (simp only: True if_True simp_thms)
  with True have "upcast (s @ t) = map as_float s @ map as_float t \<and>
      length (map as_float t) = length t \<and> list_all is_number s"
    by simp
  then show ?thesis by blast
next
  case False
  have "upcast (s @ t) = s @ t"
    unfolding upcast_def by (simp only: False if_False)
  then show ?thesis by blast
qed

lemma hold_na_cases: "hold_na s = s \<or> list_all is_number s \<and> hold_na s = map as_float s"
  by (simp add: hold_na_def)

lemma ensure_columns:
  assumes res: "ensure_dim_covers_sales_keys L F D k fc = Inr D'"
    and fk: "getcol F k = Inr fk"
    and dk: "(if \<not> is_empty D then getcol D k else Inr []) = Inr dk"
  shows "length D \<le> length D' \<and>
     (\<forall>i < length D. fst (D' ! i) = fst (D ! i) \<and>
        (\<exists>pre ext. snd (D' ! i) = pre @ ext \<and>
           length ext = length (missing_keys (map (astype_str L) (dropna fk)) (map (astype_str L) dk)) \<and>
           (pre = snd (D ! i) \<or>
            list_all is_number (snd (D ! i)) \<and> pre = map as_float (snd (D ! i)))))"
proof -
  define missing where "missing = missing_keys (map (astype_str L) (dropna fk)) (map (astype_str L) dk)"
  from ensure_Inr [OF res] fk dk have
    D': "D' = (if missing = [] then D
           else concat_frames D (foldl (fill_column k) [(k, map CStr missing)] fc))"
    by (auto simp: missing_def)
  show ?thesis
  proof (cases "missing = []")
    case True
    with D' show ?thesis by (simp add: missing_def [symmetric])
  next
    case False
    let ?add = "foldl (fill_column k) [(k, map CStr missing)] fc"
    let ?g = "\<lambda>(c::string) s. case map_of ?add c of
              None \<Rightarrow> hold_na s @ replicate (nrows ?add) CNaN | Some t \<Rightarrow> upcast (s @ t)"
    from False D' have D'': "D' = concat_frames D ?add" by simp
    have rows: "nrows ?add = length missing"
      by (rule nrows_cols_len [OF cols_len_added])
    have len: "length t = length missing" if "map_of ?add c = Some t" for c t
      using length_column_or_nan
          [OF cols_len_added [where missing = missing and k = k and fc = fc], of c] that
      by (simp add: column_or_nan_def)
    have "fst (D' ! i) = fst (D ! i) \<and>
        (\<exists>pre ext. snd (D' ! i) = pre @ ext \<and> length ext = length missing \<and>
           (pre = snd (D ! i) \<or>
            list_all is_number (snd (D ! i)) \<and> pre = map as_float (snd (D ! i))))"
      if i: "i < length D" for i
    proof -
      obtain c s where cs: "D ! i = (c, s)" by (cases "D ! i")
      from i have "D \<noteq> []" by auto
      with i cs have at: "D' ! i = (c, ?g c s)"
        by (simp add: D'' concat_frames_def nth_append)
      have "\<exists>pre ext. ?g c s = pre @ ext \<and> length ext = length missing \<and>
           (pre = s \<or> list_all is_number s \<and> pre = map as_float s)"
      proof (cases "map_of ?add c")
        case None
        from hold_na_cases [of s] have
          "hold_na s @ replicate (nrows ?add) CNaN = hold_na s @ replicate (length missing) CNaN \<and>
           length (replicate (length missing) CNaN) = length missing \<and>
           (hold_na s = s \<or> list_all is_number s \<and> hold_na s = map as_float s)"
          by (simp add: rows)
        with None show ?thesis by (simp only: option.case) blast
      next
        case (Some t)
        from upcast_append [of s t] len [OF Some] Some show ?thesis
          by (simp only: option.case)
      qed
      with at cs show ?thesis by simp
    qed
    moreover have "length D \<le> length D'"
      by (cases "D = []") (simp_all add: D'' concat_frames_def)
    ultimately show ?thesis by (simp add: missing_def [symmetric])
  qed
qed

lemma wf_dim_keys:
  assumes "wf_frame D" and "(if \<not> is_empty D then getcol D k else Inr []) = Inr dk"
  shows "dk = column_or_nan D k"
proof (cases "is_empty D")
  case False
  with assms(2) show ?thesis by (auto simp: getcol_def column_or_nan_def split: option.splits)
next
  case True
  with assms(2) have "dk = []" by simp
  moreover have "column_or_nan D k = []"
  proof (cases "map_of D k")
    case None
    with True show ?thesis by (auto simp: column_or_nan_def is_empty_def nrows_def)
  next
    case (Some s)
    then have "(k, s) \<in> set D" by (rule map_of_SomeD)
    with assms(1) have "length s = nrows D" by (auto simp: wf_frame_def list_all_iff)
    with True Some show ?thesis by (auto simp: column_or_nan_def is_empty_def nrows_def)
  qed
  ultimately show ?thesis by simp
qed

lemma wf_column_length:
  assumes "wf_frame D" "i < length D"
  shows "length (snd (D ! i)) = nrows D"
proof -
  from assms(2) have mem: "D ! i \<in> set D" by simp
  from assms(1) have "\<forall>cs \<in> set D. length (snd cs) = nrows D"
    by (simp add: wf_frame_def list_all_iff case_prod_beta)
  from this mem show ?thesis by (rule bspec)
qed

text \<open>
  Claim C10, as amended.  When the default attributes do not name the key column, the
  enforcer only appends: every column of the input dimension table keeps its position and
  its name, and its cells are the first cells of the output column, either as they are or,
  for a column of numbers, each integer stored as a float (which is what happens to an
  integer column that receives a missing value or a float default).  The key column of the
  output is the key column of the input followed by the added keys, which are strings in
  ascending order without repetition, and they are exactly the string forms of the
  non-missing keys of the fact table that are not the string form of a key of the input
  dimension.
\<close>

theorem ensure_append_only:
  assumes res: "ensure_dim_covers_sales_keys L F D k fc = Inr D'"
    and key: "k \<notin> fst ` set fc"
    and wf: "wf_frame D"
    and fk: "getcol F k = Inr fk"
  shows "\<exists>added.
     sorted added \<and> distinct added \<and>
     set added = astype_str L ` {c \<in> set fk. \<not> isna c} - astype_str L ` set (column_or_nan D k) \<and>
     column_or_nan D' k = column_or_nan D k @ map CStr added \<and>
     length D \<le> length D' \<and>
     (\<forall>i < length D. fst (D' ! i) = fst (D ! i) \<and>
        length (snd (D' ! i)) = nrows D + length added \<and>
        (take (nrows D) (snd (D' ! i)) = snd (D ! i) \<or>
         list_all is_number (snd (D ! i)) \<and>
         take (nrows D) (snd (D' ! i)) = map as_float (snd (D ! i))))"
proof -
  from ensure_key_column [OF res key fk] obtain dk where
    dk: "(if \<not> is_empty D then getcol D k else Inr []) = Inr dk" and
    kc: "column_or_nan D' k = column_or_nan D k @
       map CStr (missing_keys (map (astype_str L) (dropna fk)) (map (astype_str L) dk))"
    by blast
  define added where "added = missing_keys (map (astype_str L) (dropna fk)) (map (astype_str L) dk)"
  have dk_eq: "dk = column_or_nan D k" by (rule wf_dim_keys [OF wf dk])
  have a1: "set added = astype_str L ` {c \<in> set fk. \<not> isna c} - astype_str L ` set (column_or_nan D k)"
    unfolding added_def set_missing_keys dk_eq dropna_def by auto
  have a2: "sorted added" "distinct added"
    by (simp_all add: added_def sorted_missing_keys distinct_missing_keys)
  have a3: "column_or_nan D' k = column_or_nan D k @ map CStr added"
    using kc by (simp add: added_def)
  from ensure_columns [OF res fk dk] have
    cols: "length D \<le> length D'"
      "\<And>i. i < length D \<Longrightarrow> fst (D' ! i) = fst (D ! i) \<and>
        (\<exists>pre ext. snd (D' ! i) = pre @ ext \<and> length ext = length added \<and>
           (pre = snd (D ! i) \<or>
            list_all is_number (snd (D ! i)) \<and> pre = map as_float (snd (D ! i))))"
    unfolding added_def by blast+
  have a4: "\<forall>i < length D. fst (D' ! i) = fst (D ! i) \<and>
        length (snd (D' ! i)) = nrows D + length added \<and>
        (take (nrows D) (snd (D' ! i)) = snd (D ! i) \<or>
         list_all is_number (snd (D ! i)) \<and>
         take (nrows D) (snd (D' ! i)) = map as_float (snd (D ! i)))"
  proof (intro allI impI)
    fix i assume i: "i < length D"
    from cols(2) [OF i] obtain pre ext where
      e: "fst (D' ! i) = fst (D ! i)" "snd (D' ! i) = pre @ ext" "length ext = length added"
        "pre = snd (D ! i) \<or> list_all is_number (snd (D ! i)) \<and> pre = map as_float (snd (D ! i))"
      by blast
    from e(4) wf_column_length [OF wf i] have lp: "length pre = nrows D" by auto
    with e(2) have tk: "take (nrows D) (snd (D' ! i)) = pre" by simp
    from e(2,3) lp have "length (snd (D' ! i)) = nrows D + length added" by simp
    with e(1,4) tk
    show "fst (D' ! i) = fst (D ! i) \<and>
        length (snd (D' ! i)) = nrows D + length added \<and>
        (take (nrows D) (snd (D' ! i)) = snd (D ! i) \<or>
         list_all is_number (snd (D ! i)) \<and>
         take (nrows D) (snd (D' ! i)) = map as_float (snd (D ! i)))"
      by simp
  qed
  from a1 a2 a3 cols(1) a4 show ?thesis
    by (intro exI [of _ added] conjI)
qed

text \<open>
  The append-only theorem at the sample products table, whose integer prices receive the
  float default 0.0.
\<close>

theorem ensure_append_only_witness:
  "ensure_dim_covers_sales_keys sample_lib sample_product_keys sample_products ''product_id''
     products_fill = Inr sample_products_closed \<and>
   ''product_id'' \<notin> fst ` set products_fill \<and>
   wf_frame sample_products \<and>
   getcol sample_product_keys ''product_id'' = Inr [CStr ''101'', CStr ''102''] \<and>
   length sample_products \<le> length sample_products_closed \<and>
   fst (sample_products_closed ! 3) = fst (sample_products ! 3) \<and>
   length (snd (sample_products_closed ! 3)) = nrows sample_products + 1"
proof -
  have h1: "ensure_dim_covers_sales_keys sample_lib sample_product_keys sample_products
     ''product_id'' products_fill = Inr sample_products_closed"
    by code_simp
  have h2: "''product_id'' \<notin> fst ` set products_fill"
    by (simp add: products_fill_def)
  have h3: "wf_frame sample_products"
    by code_simp
  have h4: "getcol sample_product_keys ''product_id'' = Inr [CStr ''101'', CStr ''102'']"
    by code_simp
  have i: "3 < length sample_products" by code_simp
  have n: "length (snd (sample_products_closed ! 3)) = nrows sample_products + 1" by code_simp
  from ensure_append_only [OF h1 h2 h3 h4] i have
    "length sample_products \<le> length sample_products_closed \<and>
     fst (sample_products_closed ! 3) = fst (sample_products ! 3)"
    by blast
  with h1 h2 h3 h4 n show ?thesis by simp
qed

text \<open>
  Claim C10 as stated fails in two ways.  With a default for the key column the appended row
  carries the key \<^verbatim>\<open>X\<close>, which is no key of the fact table.  And with the defaults of
  \<^verbatim>\<open>load_dw\<close> the integer price 10 of the input product is the float 10.0 in the output,
  since its column has received the float default of the added product.
\<close>

theorem ensure_append_only_counterexample:
  "ensure_dim_covers_sales_keys sample_lib sample_store_keys [(''store_id'', [CStr ''402''])]
     ''store_id'' key_fill = Inr [(''store_id'', [CStr ''402'', CStr ''X''])] \<and>
   getcol sample_store_keys ''store_id'' = Inr [CStr ''401'', CStr ''402''] \<and>
   CStr ''X'' \<notin> set [CStr ''401'', CStr ''402''] \<and>
   ensure_dim_covers_sales_keys sample_lib sample_product_keys sample_products ''product_id''
     products_fill = Inr sample_products_closed \<and>
   getcol sample_products ''unit_price'' = Inr [CInt 10] \<and>
   getcol sample_products_closed ''unit_price'' = Inr [CFloat (Fin 10), CFloat (Fin 0)]"
  by code_simp

text \<open>
  Claim C1, as amended.  For each of the five foreign-key columns with the default attributes
  \<^verbatim>\<open>load_dw\<close> passes, after \<^verbatim>\<open>ensure_dim_covers_sales_keys\<close> the string form
  (\<^verbatim>\<open>astype(str)\<close>) of every non-missing key of the fact table is the string form of a key
  of the resulting dimension table.  When the keys of the dimension table are strings, every
  key of the fact table that is a string is itself a key of the resulting dimension table.
\<close>

theorem closure_on_key_strings:
  assumes fkey: "(k, fill_cols) \<in> set foreign_keys"
    and res: "ensure_dim_covers_sales_keys L F D k fill_cols = Inr D'"
    and fk: "getcol F k = Inr fk"
  shows "(\<forall>c \<in> set fk. \<not> isna c \<longrightarrow> astype_str L c \<in> astype_str L ` set (column_or_nan D' k)) \<and>
     (list_all is_str (column_or_nan D k) \<longrightarrow>
        (\<forall>c \<in> set fk. is_str c \<longrightarrow> c \<in> set (column_or_nan D' k)))"
proof -
  note key = foreign_keys_not_filled [OF fkey]
  have str: "astype_str L ` {c \<in> set fk. \<not> isna c} \<subseteq> astype_str L ` set (column_or_nan D' k)"
    by (rule ensure_closure [OF res key fk])
  have "c \<in> set (column_or_nan D' k)"
    if all: "list_all is_str (column_or_nan D k)" and c: "c \<in> set fk" "is_str c" for c
  proof -
    from c(2) obtain s where s: "c = CStr s" by (cases c) (auto simp: is_str_def)
    with c(1) str obtain d where d: "d \<in> set (column_or_nan D' k)" "astype_str L d = s"
      by force
    from ensure_key_column [OF res key fk] obtain added where
      "column_or_nan D' k = column_or_nan D k @ map CStr added" by blast
    with all d(1) have "is_str d" by (auto simp: list_all_iff is_str_def)
    then obtain s' where "d = CStr s'" by (cases d) (auto simp: is_str_def)
    with d s show ?thesis by simp
  qed
  with str show ?thesis by blast
qed

text \<open>The closure theorem at the sample customers table.\<close>

theorem closure_on_key_strings_witness:
  "(''customer_id'', customers_fill) \<in> set foreign_keys \<and>
   ensure_dim_covers_sales_keys sample_lib sample_sales_keys sample_customers ''customer_id''
     customers_fill = Inr sample_customers_closed \<and>
   getcol sample_sales_keys ''customer_id'' = Inr [CInt 1001, CNaN, CInt 7] \<and>
   astype_str sample_lib (CInt 1001) \<in>
     astype_str sample_lib ` set (column_or_nan sample_customers_closed ''customer_id'')"
proof -
  have h1: "(''customer_id'', customers_fill) \<in> set foreign_keys"
    by (simp add: foreign_keys_def)
  have h2: "ensure_dim_covers_sales_keys sample_lib sample_sales_keys sample_customers
     ''customer_id'' customers_fill = Inr sample_customers_closed"
    by code_simp
  have h3: "getcol sample_sales_keys ''customer_id'' = Inr [CInt 1001, CNaN, CInt 7]"
    by code_simp
  from closure_on_key_strings [OF h1 h2 h3] h1 h2 h3 show ?thesis by simp
qed

text \<open>
  Claim C1 as stated fails where the fact table holds a key that is not a string: the
  customer 1001, an integer in the fact table, is added to the dimension as the string
  \<^verbatim>\<open>1001\<close>, and the integer itself is not among the keys of the result.
\<close>

theorem closure_literal_counterexample:
  "ensure_dim_covers_sales_keys sample_lib sample_sales_keys sample_customers ''customer_id''
     customers_fill = Inr sample_customers_closed \<and>
   getcol sample_sales_keys ''customer_id'' = Inr [CInt 1001, CNaN, CInt 7] \<and>
   \<not> isna (CInt 1001) \<and>
   CInt 1001 \<notin> set (column_or_nan sample_customers_closed ''customer_id'')"
  by code_simp

section \<open>Properties of the Fact Builder\<close>

lemma map_of_filter_rows: "map_of (filter_rows fl df) c = map_option (keep fl) (map_of df c)"
  unfolding filter_rows_def by (rule map_of_map_snd [of "\<lambda>c s. keep fl s"])

lemma distinct_snd_inj:
  "distinct (map snd m) \<Longrightarrow> (a, v) \<in> set m \<Longrightarrow> (b, v) \<in> set m \<Longrightarrow> a = b"
  by (induction m) force+

lemma sales_columns_distinct:
  "distinct (map fst sales_columns)" "distinct (map snd sales_columns)"
  by (simp_all add: sales_columns_def)

lemma renamed_name:
  assumes m: "(old, new) \<in> set sales_columns" and c: "c \<noteq> new"
  shows "((case map_of sales_columns c of None \<Rightarrow> c | Some c' \<Rightarrow> c') = new) = (c = old)"
proof (cases "map_of sales_columns c")
  case None
  then have "c \<notin> fst ` set sales_columns" by (simp add: map_of_None_iff)
  with m have "c \<noteq> old" by force
  with None c show ?thesis by simp
next
  case (Some c')
  then have c': "(c, c') \<in> set sales_columns" by (rule map_of_SomeD)
  have "c' = new \<longleftrightarrow> c = old"
  proof
    assume "c' = new"
    with c' m show "c = old" using distinct_snd_inj [OF sales_columns_distinct(2)] by blast
  next
    assume "c = old"
    with Some map_of_is_SomeI [OF sales_columns_distinct(1) m] show "c' = new" by simp
  qed
  with Some show ?thesis by simp
qed

lemma rename_lookup:
  assumes "(old, new) \<in> set sales_columns" and "new \<notin> fst ` set df"
  shows "map_of (rename_columns sales_columns df) new = map_of df old"
  using assms(2)
proof (induction df)
  case Nil
  then show ?case by (simp add: rename_columns_def)
next
  case (Cons cs df)
  obtain c s where cs: "cs = (c, s)" by (cases cs)
  with Cons.prems have "c \<noteq> new" by auto
  from renamed_name [OF assms(1) this] Cons cs show ?case
    by (auto simp: rename_columns_def)
qed

lemma fresh_header_lookup:
  assumes "fresh_header df" and "(old, new) \<in> set sales_columns"
  shows "map_of (rename_columns sales_columns df) new = map_of df old"
proof -
  from assms have "new \<notin> fst ` set df"
    by (auto simp: fresh_header_def list_all_iff)
  with assms(2) show ?thesis by (rule rename_lookup)
qed

lemma dated_alt: "map (\<lambda>t. t \<noteq> None) (map (to_datetime L) dates) = dated L dates"
  by (simp add: dated_def)

lemma sales_table_column:
  assumes "sales_table df" and "getcol df old = Inr s" and "(old, new) \<in> set sales_columns"
  shows "map_of (rename_columns sales_columns df) new = Some s"
proof -
  from assms(1) have "fresh_header df" by (simp add: sales_table_def)
  from fresh_header_lookup [OF this assms(3)] assms(2) show ?thesis
    by (auto simp: getcol_def split: option.splits)
qed

lemma sales_table_has:
  assumes "sales_table df" and "(old, new) \<in> set sales_columns"
  shows "\<exists>s. getcol df old = Inr s"
proof -
  from assms have "old \<in> fst ` set df"
    by (auto simp: sales_table_def list_all_iff)
  then have "map_of df old \<noteq> None" by (simp add: map_of_None_iff)
  then show ?thesis by (auto simp: getcol_def)
qed

lemma some_dated:
  assumes "list_ex (\<lambda>c. to_datetime L c \<noteq> None) dates"
  shows "(map (to_datetime L) dates \<noteq> [] \<and>
          list_all (\<lambda>t. t = None) (map (to_datetime L) dates)) = False"
  using assms by (auto simp: list_ex_iff list_all_iff)

lemma num_float: "num L False s = Inr (map (fillna (CFloat (Fin 0))) (to_numeric_series L s))"
  by (simp add: num_def)

lemma normalize_sales_dated:
  assumes d: "map_of (rename_columns sales_columns df0) ''date'' = Some dates"
    and q: "map_of (rename_columns sales_columns df0) ''quantity'' = Some q"
    and a: "map_of (rename_columns sales_columns df0) ''sales_amount'' = Some a"
    and st: "map_of (rename_columns sales_columns df0) ''store_id'' = Some st"
    and pm: "map_of (rename_columns sales_columns df0) ''payment_method_id'' = Some pm"
    and cp: "map_of (rename_columns sales_columns df0) ''campaign_id'' = Some cp"
    and some: "list_ex (\<lambda>c. to_datetime L c \<noteq> None) dates"
    and n: "num L True (keep (dated L dates) q) = Inr q'"
  shows "normalize_sales L df0 =
     Inr (setcol (setcol (setcol (setcol (setcol (setcol
             (filter_rows (dated L dates) (rename_columns sales_columns df0))
             ''date'' (map (\<lambda>t. CStr (strftime t)) (List.map_filter id (map (to_datetime L) dates))))
             ''quantity'' q')
             ''sales_amount''
               (map (fillna (CFloat (Fin 0))) (to_numeric_series L (keep (dated L dates) a))))
             ''store_id'' (map (str_or L ''UNKNOWN-STORE'') (keep (dated L dates) st)))
             ''payment_method_id'' (map (str_or L ''UNKNOWN'') (keep (dated L dates) pm)))
             ''campaign_id'' (map (str_or_none L) (keep (dated L dates) cp)))"
proof -
  have g: "getcol (rename_columns sales_columns df0) ''date'' = Inr dates"
    by (simp add: getcol_def d)
  show ?thesis
    unfolding normalize_sales_def Let_def g sum.case some_dated [OF some] if_False
    using q a st pm cp n
    by (simp add: getcol_def map_of_setcol map_of_filter_rows dated_alt num_float
        del: map_map not_None_eq)
qed

lemma length_keep:
  "length s = length fl \<Longrightarrow> length (keep fl s) = length (filter id fl)"
  unfolding keep_def by (induction s fl rule: list_induct2) auto

lemma count_dated:
  "length (filter id (dated L dates)) =
     length dates - length (filter (\<lambda>c. to_datetime L c = None) dates)"
  unfolding dated_def by (induction dates) (auto simp: Suc_diff_le)

lemma length_map_filter_dates:
  "length (List.map_filter id (map (to_datetime L) dates)) = length (filter id (dated L dates))"
  unfolding dated_def List.map_filter_def by (induction dates) auto

lemma sequence_Inr:
  "sequence xs = Inr ys \<Longrightarrow> list_all2 (\<lambda>x y. x = Inr y) xs ys"
  by (induction xs arbitrary: ys) (auto split: sum.splits)

lemma length_to_numeric_series: "length (to_numeric_series L s) = length s"
  by (simp add: to_numeric_series_def length_upcast)

lemma length_num: "num L b s = Inr s' \<Longrightarrow> length s' = length s"
  by (auto simp: num_def Let_def length_to_numeric_series split: if_splits
      dest!: sequence_Inr list_all2_lengthD)

lemma wf_frame_column:
  "wf_frame df \<Longrightarrow> map_of df c = Some s \<Longrightarrow> length s = nrows df"
  by (auto simp: wf_frame_def list_all_iff dest!: map_of_SomeD)

lemma map_of_rename_length:
  assumes "\<forall>cs \<in> set df. length (snd cs) = n"
    and "map_of (rename_columns m df) c = Some s"
  shows "length s = n"
  using assms by (force simp: rename_columns_def dest!: map_of_SomeD)

lemma cols_len_filter_rows:
  assumes "df \<noteq> []" and "\<forall>cs \<in> set df. length (snd cs) = length fl"
  shows "cols_len (length (filter id fl)) (filter_rows fl df)"
  using assms by (auto simp: cols_len_def filter_rows_def length_keep)

lemma cols_len_dated:
  assumes wf: "wf_frame df0"
    and d: "map_of (rename_columns sales_columns df0) ''date'' = Some dates"
    and q: "map_of (rename_columns sales_columns df0) ''quantity'' = Some q"
    and a: "map_of (rename_columns sales_columns df0) ''sales_amount'' = Some a"
    and st: "map_of (rename_columns sales_columns df0) ''store_id'' = Some st"
    and pm: "map_of (rename_columns sales_columns df0) ''payment_method_id'' = Some pm"
    and cp: "map_of (rename_columns sales_columns df0) ''campaign_id'' = Some cp"
    and n: "num L True (keep (dated L dates) q) = Inr q'"
  shows "cols_len (length (filter id (dated L dates)))
       (setcol (setcol (setcol (setcol (setcol (setcol
             (filter_rows (dated L dates) (rename_columns sales_columns df0))
             ''date'' (map (\<lambda>t. CStr (strftime t)) (List.map_filter id (map (to_datetime L) dates))))
             ''quantity'' q')
             ''sales_amount''
               (map (fillna (CFloat (Fin 0))) (to_numeric_series L (keep (dated L dates) a))))
             ''store_id'' (map (str_or L ''UNKNOWN-STORE'') (keep (dated L dates) st)))
             ''payment_method_id'' (map (str_or L ''UNKNOWN'') (keep (dated L dates) pm)))
             ''campaign_id'' (map (str_or_none L) (keep (dated L dates) cp))) \<and>
     length dates = nrows df0"
proof -
  let ?df = "rename_columns sales_columns df0"
  let ?n = "length (filter id (dated L dates))"
  from wf have all: "\<forall>cs \<in> set df0. length (snd cs) = nrows df0"
    by (auto simp: wf_frame_def list_all_iff)
  have len: "length s = nrows df0" if "map_of ?df c = Some s" for c s
    using map_of_rename_length [OF all that] .
  from len [OF d] have ld: "length dates = nrows df0" .
  from d have ne: "?df \<noteq> []" by auto
  have "\<forall>cs \<in> set ?df. length (snd cs) = length (dated L dates)"
    using all ld by (auto simp: rename_columns_def dated_def)
  from cols_len_filter_rows [OF ne this]
  have c1: "cols_len ?n (filter_rows (dated L dates) ?df)" .
  have k: "length (keep (dated L dates) s) = ?n" if "map_of ?df c = Some s" for c s
    by (rule length_keep) (simp add: len [OF that] ld dated_def)
  have "cols_len ?n
       (setcol (setcol (setcol (setcol (setcol (setcol
             (filter_rows (dated L dates) ?df)
             ''date'' (map (\<lambda>t. CStr (strftime t)) (List.map_filter id (map (to_datetime L) dates))))
             ''quantity'' q')
             ''sales_amount''
               (map (fillna (CFloat (Fin 0))) (to_numeric_series L (keep (dated L dates) a))))
             ''store_id'' (map (str_or L ''UNKNOWN-STORE'') (keep (dated L dates) st)))
             ''payment_method_id'' (map (str_or L ''UNKNOWN'') (keep (dated L dates) pm)))
             ''campaign_id'' (map (str_or_none L) (keep (dated L dates) cp)))"
    by (intro cols_len_setcol c1)
       (simp_all add: length_map_filter_dates length_num [OF n] length_to_numeric_series
          k [OF q] k [OF a] k [OF st] k [OF pm] k [OF cp])
  with ld show ?thesis by simp
qed

section \<open>The quantity of a fact\<close>

lemma int_part_of_int: "int_part (of_int i) = i"
  by (simp add: int_part_def)

lemma int64_small: "\<bar>v\<bar> \<le> 2 ^ 53 \<Longrightarrow> int64_of_float v = int_part v"
proof -
  assume a: "\<bar>v\<bar> \<le> 2 ^ 53"
  have "\<bar>int_part v\<bar> \<le> 2 ^ 53"
  proof (cases "v < 0")
    case True
    with a have "- v \<le> 2 ^ 53" by simp
    then have "\<lfloor>- v\<rfloor> \<le> 2 ^ 53" by (simp add: floor_le_iff)
    moreover from True have "0 \<le> \<lfloor>- v\<rfloor>" by simp
    ultimately show ?thesis using True by (simp add: int_part_def)
  next
    case False
    with a have "v \<le> 2 ^ 53" by simp
    then have "\<lfloor>v\<rfloor> \<le> 2 ^ 53" by (simp add: floor_le_iff)
    moreover from False have "0 \<le> \<lfloor>v\<rfloor>" by simp
    ultimately show ?thesis using False by (simp add: int_part_def)
  qed
  then have "- (2 ^ 53) \<le> int_part v" "int_part v \<le> 2 ^ 53" by linarith+
  moreover have "(2 :: int) ^ 53 < 2 ^ 63" by simp
  ultimately have "- (2 ^ 63) \<le> int_part v \<and> int_part v < 2 ^ 63" by linarith
  then show ?thesis by (simp only: int64_of_float_def if_True simp_thms)
qed

lemma to_numeric_cases:
  "to_numeric L c = CNaN \<or> (\<exists>i. to_numeric L c = CInt i) \<or> (\<exists>f. to_numeric L c = CFloat f)"
  by (cases c) (auto simp: to_numeric_def split: option.splits sum.splits)

lemma is_number_to_numeric: "is_number (to_numeric L c)"
  using to_numeric_cases [of L c] by (auto simp: is_number_def)

lemma float64_of_int_Fin: "\<exists>v. float64_of_int i = Fin v \<and> (\<bar>i\<bar> \<le> 2 ^ 53 \<longrightarrow> v = of_int i)"
  by (simp add: float64_of_int_def Let_def)

lemma quantity_float_cell:
  assumes "no_infinity L c"
  shows "\<exists>n. astype_int (fillna (CFloat (Fin 0)) (as_float (to_numeric L c))) = Inr (CInt n) \<and>
     truncated L c n"
proof -
  from to_numeric_cases [of L c]
  consider "to_numeric L c = CNaN" | i where "to_numeric L c = CInt i"
    | f where "to_numeric L c = CFloat f" by blast
  then show ?thesis
  proof cases
    case 1
    have "int64_of_float 0 = 0" by (simp add: int64_of_float_def int_part_def)
    with 1 show ?thesis
      by (simp add: as_float_def fillna_def truncated_def numeric_value_def)
  next
    case (2 i)
    from float64_of_int_Fin [of i] obtain v where
      v: "float64_of_int i = Fin v" "\<bar>i\<bar> \<le> 2 ^ 53 \<longrightarrow> v = of_int i" by blast
    have "int64_of_float v = i" if "\<bar>rat_of_int i\<bar> \<le> 2 ^ 53"
    proof -
      from that have "rat_of_int \<bar>i\<bar> \<le> rat_of_int (2 ^ 53)" by simp
      then have i: "\<bar>i\<bar> \<le> 2 ^ 53" by (simp only: of_int_le_iff)
      with v(2) have "v = of_int i" by simp
      with that show ?thesis by (simp add: int64_small int_part_of_int)
    qed
    with 2 v(1) show ?thesis
      by (simp add: as_float_def fillna_def truncated_def numeric_value_def int_part_of_int)
  next
    case (3 f)
    with assms obtain v where "f = Fin v" by (cases f) (auto simp: no_infinity_def)
    with 3 show ?thesis
      by (simp add: as_float_def fillna_def truncated_def numeric_value_def int64_small)
  qed
qed

lemma quantity_int_cell:
  assumes "to_numeric L c = CInt i"
  shows "astype_int (fillna (CFloat (Fin 0)) (to_numeric L c)) = Inr (CInt i) \<and> truncated L c i"
  using assms by (simp add: fillna_def truncated_def numeric_value_def int_part_of_int)

lemma quantity_bool_cell:
  assumes "is_bool c"
  shows "\<exists>n. astype_int (fillna (CFloat (Fin 0)) c) = Inr (CInt n) \<and> truncated L c n"
proof -
  from assms obtain b where "c = CBool b" by (cases c) (auto simp: is_bool_def)
  then show ?thesis
    by (simp add: fillna_def truncated_def numeric_value_def to_numeric_def int_part_of_int)
qed

lemma sequence_map_Inr:
  assumes "\<forall>c \<in> set s. \<exists>n. f c = Inr (g n) \<and> P c n"
  shows "\<exists>ns. sequence (map f s) = Inr (map g ns) \<and> list_all2 P s ns"
  using assms
proof (induction s)
  case Nil
  then show ?case by simp
next
  case (Cons c s)
  then obtain n ns where "f c = Inr (g n)" "P c n" "sequence (map f s) = Inr (map g ns)"
    "list_all2 P s ns" by auto
  then have "sequence (map f (c # s)) = Inr (map g (n # ns)) \<and> list_all2 P (c # s) (n # ns)"
    by simp
  then show ?case by (rule exI [of _ "n # ns"])
qed

lemma num_int:
  assumes fin: "list_all (no_infinity L) s"
  shows "\<exists>ns. num L True s = Inr (map CInt ns) \<and> list_all2 (truncated L) s ns"
proof (cases "list_all is_bool s")
  case True
  then have "num L True s = sequence (map (\<lambda>c. astype_int (fillna (CFloat (Fin 0)) c)) s)"
    by (simp add: num_def to_numeric_series_def comp_def)
  moreover from True have "\<forall>c \<in> set s. \<exists>n. astype_int (fillna (CFloat (Fin 0)) c) = Inr (CInt n) \<and>
      truncated L c n"
    by (auto simp: list_all_iff intro: quantity_bool_cell)
  ultimately show ?thesis using sequence_map_Inr [of s _ CInt "truncated L"] by simp
next
  case False
  have nums: "list_all is_number (map (to_numeric L) s)"
    by (simp add: list_all_iff is_number_to_numeric)
  show ?thesis
  proof (cases "list_ex is_float (map (to_numeric L) s)")
    case True
    with nums have "upcast (map (to_numeric L) s) = map as_float (map (to_numeric L) s)"
      unfolding upcast_def by (simp only: if_True simp_thms)
    with False have "num L True s =
        sequence (map (\<lambda>c. astype_int (fillna (CFloat (Fin 0)) (as_float (to_numeric L c)))) s)"
      by (simp add: num_def to_numeric_series_def comp_def)
    moreover from fin have "\<forall>c \<in> set s. \<exists>n.
        astype_int (fillna (CFloat (Fin 0)) (as_float (to_numeric L c))) = Inr (CInt n) \<and>
        truncated L c n"
      by (auto simp: list_all_iff intro: quantity_float_cell)
    ultimately show ?thesis using sequence_map_Inr [of s _ CInt "truncated L"] by simp
  next
    case nofloat: False
    then have "upcast (map (to_numeric L) s) = map (to_numeric L) s"
      unfolding upcast_def by (simp only: if_False simp_thms)
    with False have "num L True s =
        sequence (map (\<lambda>c. astype_int (fillna (CFloat (Fin 0)) (to_numeric L c))) s)"
      by (simp add: num_def to_numeric_series_def comp_def)
    moreover have "\<exists>n. astype_int (fillna (CFloat (Fin 0)) (to_numeric L c)) = Inr (CInt n) \<and>
        truncated L c n" if "c \<in> set s" for c
    proof -
      from nofloat that have "\<not> is_float (to_numeric L c)" by (auto simp: list_ex_iff)
      with to_numeric_cases [of L c] obtain i where "to_numeric L c = CInt i"
        by (auto simp: is_float_def)
      from quantity_int_cell [OF this] show ?thesis by blast
    qed
    ultimately show ?thesis using sequence_map_Inr [of s _ CInt "truncated L"] by simp
  qed
qed

lemma normalize_payment_not_empty: "normalize_payment L x \<noteq> ''''"
proof -
  have "v \<noteq> ''''" if "map_of PAYMENT_CANON k = Some v" for k v
    using map_of_SomeD [OF that] by (auto simp: PAYMENT_CANON_def)
  then show ?thesis
    by (auto simp: normalize_payment_def Let_def split: option.splits)
qed

section \<open>What the Fact Builder returns\<close>

lemma fact_builder_returns:
  assumes tab: "sales_table df"
    and dates: "getcol df ''SaleDate'' = Inr dates"
    and qs: "getcol df ''Quantity'' = Inr qs"
    and some: "list_ex (\<lambda>c. to_datetime L c \<noteq> None) dates"
    and n: "num L True (keep (dated L dates) qs) = Inr q'"
  shows "\<exists>a st pm cp.
     map_of (rename_columns sales_columns df) ''sales_amount'' = Some a \<and>
     map_of (rename_columns sales_columns df) ''store_id'' = Some st \<and>
     getcol df ''PaymentMethod'' = Inr pm \<and>
     map_of (rename_columns sales_columns df) ''campaign_id'' = Some cp \<and>
     normalize_sales L df =
     Inr (setcol (setcol (setcol (setcol (setcol (setcol
             (filter_rows (dated L dates) (rename_columns sales_columns df))
             ''date'' (map (\<lambda>t. CStr (strftime t)) (List.map_filter id (map (to_datetime L) dates))))
             ''quantity'' q')
             ''sales_amount''
               (map (fillna (CFloat (Fin 0))) (to_numeric_series L (keep (dated L dates) a))))
             ''store_id'' (map (str_or L ''UNKNOWN-STORE'') (keep (dated L dates) st)))
             ''payment_method_id'' (map (str_or L ''UNKNOWN'') (keep (dated L dates) pm)))
             ''campaign_id'' (map (str_or_none L) (keep (dated L dates) cp)))"
proof -
  have d: "map_of (rename_columns sales_columns df) ''date'' = Some dates"
    by (rule sales_table_column [OF tab dates]) (simp add: sales_columns_def)
  have q: "map_of (rename_columns sales_columns df) ''quantity'' = Some qs"
    by (rule sales_table_column [OF tab qs]) (simp add: sales_columns_def)
  from sales_table_has [OF tab, of "''SaleAmount''" "''sales_amount''"]
  obtain a where a: "getcol df ''SaleAmount'' = Inr a" by (auto simp: sales_columns_def)
  from sales_table_has [OF tab, of "''StoreID''" "''store_id''"]
  obtain st where st: "getcol df ''StoreID'' = Inr st" by (auto simp: sales_columns_def)
  from sales_table_has [OF tab, of "''PaymentMethod''" "''payment_method_id''"]
  obtain pm where pm: "getcol df ''PaymentMethod'' = Inr pm" by (auto simp: sales_columns_def)
  from sales_table_has [OF tab, of "''CampaignID''" "''campaign_id''"]
  obtain cp where cp: "getcol df ''CampaignID'' = Inr cp" by (auto simp: sales_columns_def)
  have a': "map_of (rename_columns sales_columns df) ''sales_amount'' = Some a"
    by (rule sales_table_column [OF tab a]) (simp add: sales_columns_def)
  have st': "map_of (rename_columns sales_columns df) ''store_id'' = Some st"
    by (rule sales_table_column [OF tab st]) (simp add: sales_columns_def)
  have pm': "map_of (rename_columns sales_columns df) ''payment_method_id'' = Some pm"
    by (rule sales_table_column [OF tab pm]) (simp add: sales_columns_def)
  have cp': "map_of (rename_columns sales_columns df) ''campaign_id'' = Some cp"
    by (rule sales_table_column [OF tab cp]) (simp add: sales_columns_def)
  from normalize_sales_dated [OF d q a' st' pm' cp' some n] a' st' pm cp'
  show ?thesis by blast
qed



text \<open>
  Claim C8, as amended.  \<^verbatim>\<open>normalize_sales\<close> does not canonicalise the payment method: on
  a cleaned sales table in which some date parses (and no quantity of a dated row is an
  infinity, so that the function returns), the payment method of every fact row whose input
  cell is not missing is the string form of that cell, with \<^verbatim>\<open>UNKNOWN\<close> in place of the
  empty string.  A token that the upstream \<^verbatim>\<open>normalize_payment\<close> has produced is therefore
  kept as it is.
\<close>

theorem payment_method_is_carried_through:
  assumes tab: "sales_table df"
    and dates: "getcol df ''SaleDate'' = Inr dates"
    and pms: "getcol df ''PaymentMethod'' = Inr pms"
    and qs: "getcol df ''Quantity'' = Inr qs"
    and some: "list_ex (\<lambda>c. to_datetime L c \<noteq> None) dates"
    and fin: "list_all (no_infinity L) (keep (dated L dates) qs)"
  shows "\<exists>out ps. normalize_sales L df = Inr out \<and>
     getcol out ''payment_method_id'' = Inr ps \<and>
     list_all2 (\<lambda>c p. \<not> isna c \<longrightarrow>
         p = CStr (if astype_str L c = '''' then ''UNKNOWN'' else astype_str L c))
       (keep (dated L dates) pms) ps \<and>
     (\<forall>x. str_or L ''UNKNOWN'' (CStr (normalize_payment L x)) = CStr (normalize_payment L x))"
proof -
  from num_int [OF fin] obtain ns where
    n: "num L True (keep (dated L dates) qs) = Inr (map CInt ns)"
    by blast
  from fact_builder_returns [OF tab dates qs some n] pms obtain out where
    out: "normalize_sales L df = Inr out" and
    col: "map_of out ''payment_method_id'' =
      Some (map (str_or L ''UNKNOWN'') (keep (dated L dates) pms))"
    by (auto simp: map_of_setcol)
  from col have g: "getcol out ''payment_method_id'' =
      Inr (map (str_or L ''UNKNOWN'') (keep (dated L dates) pms))"
    by (simp add: getcol_def)
  have r: "list_all2 (\<lambda>c p. \<not> isna c \<longrightarrow>
         p = CStr (if astype_str L c = '''' then ''UNKNOWN'' else astype_str L c))
       (keep (dated L dates) pms) (map (str_or L ''UNKNOWN'') (keep (dated L dates) pms))"
    by (simp add: list_all2_map2 list_all2_same str_or_def)
  have "\<forall>x. str_or L ''UNKNOWN'' (CStr (normalize_payment L x)) = CStr (normalize_payment L x)"
    by (simp add: str_or_def normalize_payment_not_empty)
  with out g r show ?thesis by blast
qed

lemma dated_sales_are_kept:
  assumes wf: "wf_frame df"
    and tab: "sales_table df"
    and dates: "getcol df ''SaleDate'' = Inr dates"
    and ids: "getcol df ''TransactionID'' = Inr ids"
    and qs: "getcol df ''Quantity'' = Inr qs"
    and some: "list_ex (\<lambda>c. to_datetime L c \<noteq> None) dates"
    and fin: "list_all (no_infinity L) (keep (dated L dates) qs)"
  shows "\<exists>out. normalize_sales L df = Inr out \<and>
     nrows out = nrows df - length (filter (\<lambda>c. to_datetime L c = None) dates) \<and>
     getcol out ''sale_id'' = Inr (keep (dated L dates) ids)"
proof -
  from num_int [OF fin] obtain ns where
    n: "num L True (keep (dated L dates) qs) = Inr (map CInt ns)"
    by blast
  have d: "map_of (rename_columns sales_columns df) ''date'' = Some dates"
    by (rule sales_table_column [OF tab dates]) (simp add: sales_columns_def)
  have q: "map_of (rename_columns sales_columns df) ''quantity'' = Some qs"
    by (rule sales_table_column [OF tab qs]) (simp add: sales_columns_def)
  have i: "map_of (rename_columns sales_columns df) ''sale_id'' = Some ids"
    by (rule sales_table_column [OF tab ids]) (simp add: sales_columns_def)
  from fact_builder_returns [OF tab dates qs some n] obtain a st pm cp where
    a: "map_of (rename_columns sales_columns df) ''sales_amount'' = Some a" and
    st: "map_of (rename_columns sales_columns df) ''store_id'' = Some st" and
    pm: "getcol df ''PaymentMethod'' = Inr pm" and
    cp: "map_of (rename_columns sales_columns df) ''campaign_id'' = Some cp" and
    out: "normalize_sales L df =
     Inr (setcol (setcol (setcol (setcol (setcol (setcol
             (filter_rows (dated L dates) (rename_columns sales_columns df))
             ''date'' (map (\<lambda>t. CStr (strftime t)) (List.map_filter id (map (to_datetime L) dates))))
             ''quantity'' (map CInt ns))
             ''sales_amount''
               (map (fillna (CFloat (Fin 0))) (to_numeric_series L (keep (dated L dates) a))))
             ''store_id'' (map (str_or L ''UNKNOWN-STORE'') (keep (dated L dates) st)))
             ''payment_method_id'' (map (str_or L ''UNKNOWN'') (keep (dated L dates) pm)))
             ''campaign_id'' (map (str_or_none L) (keep (dated L dates) cp)))"
    by blast
  have pm': "map_of (rename_columns sales_columns df) ''payment_method_id'' = Some pm"
    by (rule sales_table_column [OF tab pm]) (simp add: sales_columns_def)
  let ?out = "setcol (setcol (setcol (setcol (setcol (setcol
             (filter_rows (dated L dates) (rename_columns sales_columns df))
             ''date'' (map (\<lambda>t. CStr (strftime t)) (List.map_filter id (map (to_datetime L) dates))))
             ''quantity'' (map CInt ns))
             ''sales_amount''
               (map (fillna (CFloat (Fin 0))) (to_numeric_series L (keep (dated L dates) a))))
             ''store_id'' (map (str_or L ''UNKNOWN-STORE'') (keep (dated L dates) st)))
             ''payment_method_id'' (map (str_or L ''UNKNOWN'') (keep (dated L dates) pm)))
             ''campaign_id'' (map (str_or_none L) (keep (dated L dates) cp))"
  from cols_len_dated [OF wf d q a st pm' cp n]
  have "nrows ?out = length (filter id (dated L dates))" "length dates = nrows df"
    by (simp_all add: nrows_cols_len)
  then have r: "nrows ?out = nrows df - length (filter (\<lambda>c. to_datetime L c = None) dates)"
    by (simp add: count_dated)
  from i have s: "getcol ?out ''sale_id'' = Inr (keep (dated L dates) ids)"
    by (simp add: getcol_def map_of_setcol map_of_filter_rows)
  from out r s show ?thesis by blast
qed

lemma sample_facts_eval: "normalize_sales sample_lib sample_sales = Inr sample_facts"
  by code_simp

lemma sample_sales_ok:
  "sales_table sample_sales"
  "getcol sample_sales ''SaleDate'' =
     Inr [CStr ''2024-03-09'', CStr ''not-a-date'', CStr ''2024-03-11'']"
  "getcol sample_sales ''Quantity'' = Inr [CNaN, CFloat (Fin 1), CFloat (Fin (- 3))]"
  "list_ex (\<lambda>c. to_datetime sample_lib c \<noteq> None)
     [CStr ''2024-03-09'', CStr ''not-a-date'', CStr ''2024-03-11'']"
  "list_all (no_infinity sample_lib)
     (keep (dated sample_lib [CStr ''2024-03-09'', CStr ''not-a-date'', CStr ''2024-03-11''])
        [CNaN, CFloat (Fin 1), CFloat (Fin (- 3))])"
  "getcol sample_sales ''PaymentMethod'' = Inr [CStr ''VISA'', CStr ''Cash'', CNaN]"
  by code_simp+



text \<open>The payment methods of the sample facts.\<close>

theorem payment_method_is_carried_through_witness:
  "sales_table sample_sales \<and>
   getcol sample_sales ''SaleDate'' =
     Inr [CStr ''2024-03-09'', CStr ''not-a-date'', CStr ''2024-03-11''] \<and>
   getcol sample_sales ''PaymentMethod'' = Inr [CStr ''VISA'', CStr ''Cash'', CNaN] \<and>
   getcol sample_sales ''Quantity'' = Inr [CNaN, CFloat (Fin 1), CFloat (Fin (- 3))] \<and>
   list_ex (\<lambda>c. to_datetime sample_lib c \<noteq> None)
     [CStr ''2024-03-09'', CStr ''not-a-date'', CStr ''2024-03-11''] \<and>
   list_all (no_infinity sample_lib)
     (keep (dated sample_lib [CStr ''2024-03-09'', CStr ''not-a-date'', CStr ''2024-03-11''])
        [CNaN, CFloat (Fin 1), CFloat (Fin (- 3))]) \<and>
   normalize_sales sample_lib sample_sales = Inr sample_facts \<and>
   keep (dated sample_lib [CStr ''2024-03-09'', CStr ''not-a-date'', CStr ''2024-03-11''])
     [CStr ''VISA'', CStr ''Cash'', CNaN] = [CStr ''VISA'', CNaN] \<and>
   \<not> isna (CStr ''VISA'') \<and>
   column_or_nan sample_facts ''payment_method_id'' ! 0 = CStr ''VISA''"
proof -
  have k: "keep (dated sample_lib [CStr ''2024-03-09'', CStr ''not-a-date'', CStr ''2024-03-11''])
     [CStr ''VISA'', CStr ''Cash'', CNaN] = [CStr ''VISA'', CNaN]" by code_simp
  have p: "column_or_nan sample_facts ''payment_method_id'' ! 0 = CStr ''VISA''" by code_simp
  have i: "\<not> isna (CStr ''VISA'')" by simp
  from payment_method_is_carried_through [OF sample_sales_ok(1,2,6,3,4,5)] k p i
    sample_sales_ok sample_facts_eval
  show ?thesis by blast
qed

text \<open>
  Claim C8 as stated fails: the input \<^verbatim>\<open>VISA\<close> stays \<^verbatim>\<open>VISA\<close> in the fact table, while
  its canonical token is \<^verbatim>\<open>Visa\<close>.
\<close>

theorem payment_method_is_not_canonicalized:
  "getcol sample_sales ''PaymentMethod'' = Inr [CStr ''VISA'', CStr ''Cash'', CNaN] \<and>
   normalize_sales sample_lib sample_sales = Inr sample_facts \<and>
   getcol sample_facts ''payment_method_id'' = Inr [CStr ''VISA'', CStr ''nan''] \<and>
   normalize_payment sample_lib (CStr ''VISA'') = ''Visa''"
  by code_simp

text \<open>
  Claim C7.  The code does not do what the claim says for a missing store: \<^verbatim>\<open>astype(str)\<close>
  turns the missing cell into the text \<^verbatim>\<open>nan\<close>, and only the empty string is replaced by
  the sentinel.  The first sample row has no store, and its fact row has the store \<^verbatim>\<open>nan\<close>,
  not \<^verbatim>\<open>UNKNOWN-STORE\<close>.  The campaign column of the same function does replace \<^verbatim>\<open>"nan"\<close>.
\<close>

theorem missing_store_becomes_nan:
  "getcol sample_sales ''StoreID'' = Inr [CNaN, CStr ''S-401'', CStr ''S-402''] \<and>
   getcol sample_sales ''SaleDate'' = Inr [CStr ''2024-03-09'', CStr ''not-a-date'', CStr ''2024-03-11''] \<and>
   normalize_sales sample_lib sample_sales = Inr sample_facts \<and>
   getcol sample_facts ''store_id'' = Inr [CStr ''nan'', CStr ''S-402'']"
  by code_simp

text \<open>
  Claim C3.  The code does not do what the claim says when the table has rows and no date
  parses: the filtered frame then has no row, and assigning the date column to it brings
  back every input row, with missing cells.  Neither date of the two rows of this table
  parses, and the fact table has two rows, not none.  Where some date parses, the rows
  without a date are dropped and no others (lemma \<open>dated_sales_are_kept\<close>).
\<close>

theorem undated_rows_are_kept:
  "getcol undated_sales ''SaleDate'' = Inr [CStr ''09/03/2024'', CNaN] \<and>
   to_datetime sample_lib (CStr ''09/03/2024'') = None \<and>
   to_datetime sample_lib CNaN = None \<and>
   nrows undated_sales = 2 \<and>
   normalize_sales sample_lib undated_sales = Inr undated_facts \<and>
   nrows undated_facts = 2"
  by code_simp

section \<open>Properties of the calendar dimension\<close>

lemma keep_map: "keep fl (map f xs) = map f (keep fl xs)"
  unfolding keep_def
proof (induction xs arbitrary: fl)
  case Nil
  then show ?case by simp
next
  case (Cons x xs)
  then show ?case by (cases fl) auto
qed

lemma first_flags_keys:
  "distinct (map g (keep (first_flags seen (map g xs)) xs)) \<and>
   g ` set (keep (first_flags seen (map g xs)) xs) = g ` set xs - set seen \<and>
   set (keep (first_flags seen (map g xs)) xs) \<subseteq> set xs"
proof (induction xs arbitrary: seen)
  case Nil
  then show ?case by (simp add: keep_def)
next
  case (Cons x xs)
  from Cons [of "g x # seen"] show ?case
    by (auto simp: keep_def)
qed

lemma digit_char_inj:
  assumes "a < 10" "b < 10" "digit_char a = digit_char b"
  shows "a = b"
proof -
  have "distinct ''0123456789''" by simp
  then have "(''0123456789'' ! a = ''0123456789'' ! b) = (a = b)"
    using assms(1,2) by (intro nth_eq_iff_index_eq) simp_all
  with assms(3) show ?thesis by (simp add: digit_char_def)
qed

lemma digit_step: "(n::nat) mod 10 = n' mod 10 \<Longrightarrow> n div 10 = n' div 10 \<Longrightarrow> n = n'"
  by (metis mult_div_mod_eq)

lemma two_digits:
  assumes "m < 100" "m' < 100" "m div 10 mod 10 = m' div 10 mod 10" "m mod 10 = m' mod 10"
  shows "m = (m' :: nat)"
proof -
  from assms(1,2) have "m div 10 < 10" "m' div 10 < 10" by simp_all
  with assms(3) have "m div 10 = m' div 10" by simp
  with assms(4) show ?thesis by (rule digit_step)
qed

lemma four_digits:
  assumes "y < 10000" "y' < 10000"
    and "y div 1000 mod 10 = y' div 1000 mod 10" "y div 100 mod 10 = y' div 100 mod 10"
    and "y div 10 mod 10 = y' div 10 mod 10" "y mod 10 = y' mod 10"
  shows "y = (y' :: nat)"
proof -
  from assms(1,2) have "y div 1000 < 10" "y' div 1000 < 10" by simp_all
  with assms(3) have "y div 1000 = y' div 1000" by simp
  then have "y div 100 div 10 = y' div 100 div 10" by (simp add: div_mult2_eq [symmetric])
  with assms(4) have "y div 100 = y' div 100" by (rule digit_step)
  then have "y div 10 div 10 = y' div 10 div 10" by (simp add: div_mult2_eq [symmetric])
  with assms(5) have "y div 10 = y' div 10" by (rule digit_step)
  with assms(6) show ?thesis by (rule digit_step)
qed

lemma valid_timestamp_bounds:
  assumes "valid_timestamp (y, m, d)"
  shows "y < 10000" "m < 100" "d < 100"
proof -
  from assms have "date_le (y, m, d) (2262, 4, 11)" "m \<le> 12" "d \<le> days_in_month y m" by simp_all
  moreover have "days_in_month y m \<le> 31" by (simp add: days_in_month_def)
  ultimately show "y < 10000" "m < 100" "d < 100" by auto
qed

lemma strftime_inj:
  assumes "valid_timestamp t" "valid_timestamp t'" "strftime t = strftime t'"
  shows "t = t'"
proof -
  obtain y m d where t: "t = (y, m, d)" by (cases t)
  obtain y' m' d' where t': "t' = (y', m', d')" by (cases t')
  note b = valid_timestamp_bounds [OF assms(1) [unfolded t]]
  note b' = valid_timestamp_bounds [OF assms(2) [unfolded t']]
  have dg: "digit_char (a mod 10) = digit_char (a' mod 10) \<Longrightarrow> a mod 10 = a' mod 10" for a a'
    by (rule digit_char_inj) simp_all
  from assms(3) have e:
    "digit_char (y div 1000 mod 10) = digit_char (y' div 1000 mod 10)"
    "digit_char (y div 100 mod 10) = digit_char (y' div 100 mod 10)"
    "digit_char (y div 10 mod 10) = digit_char (y' div 10 mod 10)"
    "digit_char (y mod 10) = digit_char (y' mod 10)"
    "digit_char (m div 10 mod 10) = digit_char (m' div 10 mod 10)"
    "digit_char (m mod 10) = digit_char (m' mod 10)"
    "digit_char (d div 10 mod 10) = digit_char (d' div 10 mod 10)"
    "digit_char (d mod 10) = digit_char (d' mod 10)"
    unfolding t t' by simp_all
  have "y = y'"
    by (rule four_digits [OF b(1) b'(1) dg [OF e(1)] dg [OF e(2)] dg [OF e(3)] dg [OF e(4)]])
  moreover have "m = m'"
    by (rule two_digits [OF b(2) b'(2) dg [OF e(5)] dg [OF e(6)]])
  moreover have "d = d'"
    by (rule two_digits [OF b(3) b'(3) dg [OF e(7)] dg [OF e(8)]])
  ultimately show ?thesis by (simp add: t t')
qed

lemma set_map_filter: "set (List.map_filter f xs) = {y. \<exists>x \<in> set xs. f x = Some y}"
  by (induction xs) (auto simp: List.map_filter_def)

lemma to_datetime_valid: "to_datetime L c = Some t \<Longrightarrow> valid_timestamp t"
  by (auto simp: to_datetime_def split: if_splits option.splits)

lemma map_nth_map:
  "\<forall>i \<in> set idx. i < length xs \<Longrightarrow> map (\<lambda>i. map f xs ! i) idx = map f (map (\<lambda>i. xs ! i) idx)"
  by (induction idx) auto

lemma sorted_rows:
  fixes k :: "'a \<Rightarrow> string"
  defines "order \<equiv> \<lambda>xs. sort_key (\<lambda>i. str_of (map (\<lambda>t. CStr (k t)) xs ! i)) [0..<length xs]"
  assumes "distinct xs"
  shows "set (map (\<lambda>i. xs ! i) (order xs)) = set xs"
    and "distinct (map (\<lambda>i. xs ! i) (order xs))"
    and "sorted (map k (map (\<lambda>i. xs ! i) (order xs)))"
    and "\<forall>i \<in> set (order xs). i < length xs"
proof -
  have s: "set (order xs) = {0..<length xs}" by (simp add: order_def)
  then show r: "\<forall>i \<in> set (order xs). i < length xs" by simp
  have "set (map (\<lambda>i. xs ! i) (order xs)) = (\<lambda>i. xs ! i) ` {0..<length xs}"
    using s by simp
  also have "\<dots> = set xs" by (auto simp: set_conv_nth)
  finally show "set (map (\<lambda>i. xs ! i) (order xs)) = set xs" .
  have "distinct (order xs)" by (simp add: order_def)
  moreover have "inj_on (\<lambda>i. xs ! i) (set (order xs))"
    unfolding s using assms(2) by (auto simp: inj_on_def nth_eq_iff_index_eq)
  ultimately show "distinct (map (\<lambda>i. xs ! i) (order xs))" by (simp add: distinct_map)
  have "sorted (map (\<lambda>i. str_of (map (\<lambda>t. CStr (k t)) xs ! i)) (order xs))"
    unfolding order_def by (rule sorted_sort_key)
  moreover have "map (\<lambda>i. str_of (map (\<lambda>t. CStr (k t)) xs ! i)) (order xs) =
      map k (map (\<lambda>i. xs ! i) (order xs))"
    using r by (simp add: str_of_def)
  ultimately show "sorted (map k (map (\<lambda>i. xs ! i) (order xs)))" by simp
qed

lemma drop_duplicates_calendar:
  "drop_duplicates ''date'' (calendar_frame s) =
     Inr (calendar_frame (keep (first_flags [] (map (\<lambda>t. CStr (strftime t)) s)) s))"
  by (simp add: drop_duplicates_def getcol_def filter_rows_def keep_map calendar_frame_def)

lemma take_rows_calendar:
  assumes "\<forall>i \<in> set idx. i < length s"
  shows "take_rows idx (calendar_frame s) = calendar_frame (map (\<lambda>i. s ! i) idx)"
  by (simp add: take_rows_def calendar_frame_def map_nth_map [OF assms])

lemma sort_values_calendar:
  "sort_values ''date'' (calendar_frame s) =
     Inr (take_rows (sort_key (\<lambda>i. str_of (map (\<lambda>t. CStr (strftime t)) s ! i)) [0..<length s])
            (calendar_frame s))"
  by (simp add: sort_values_def getcol_def calendar_frame_def)

lemma build_dates_calendar:
  assumes "getcol F ''date'' = Inr dates"
  shows "build_dates_from_sales L F =
     (case drop_duplicates ''date'' (calendar_frame (List.map_filter (to_datetime L) dates)) of
        Inl e \<Rightarrow> Inl e | Inr df \<Rightarrow> sort_values ''date'' df)"
  using assms by (simp add: build_dates_from_sales_def calendar_frame_def Let_def)

lemma build_dates_returns:
  assumes dates: "getcol F ''date'' = Inr dates"
  shows "\<exists>ts. set ts = {t. \<exists>c \<in> set dates. to_datetime L c = Some t} \<and> distinct ts \<and>
     sorted (map strftime ts) \<and> build_dates_from_sales L F = Inr (calendar_frame ts)"
proof -
  let ?g = "\<lambda>t. CStr (strftime t)"
  define s where "s = List.map_filter (to_datetime L) dates"
  define s1 where "s1 = keep (first_flags [] (map ?g s)) s"
  define order where
    "order = sort_key (\<lambda>i. str_of (map ?g s1 ! i)) [0..<length s1]"
  define s2 where "s2 = map (\<lambda>i. s1 ! i) order"
  have valid: "valid_timestamp t" if "t \<in> set s" for t
  proof -
    from that obtain c where "to_datetime L c = Some t"
      unfolding s_def set_map_filter by blast
    then show ?thesis by (rule to_datetime_valid)
  qed
  from first_flags_keys [of ?g "[]" s] have
    k: "distinct (map ?g s1)" "?g ` set s1 = ?g ` set s" "set s1 \<subseteq> set s"
    unfolding s1_def by simp_all
  from k(1) have d1: "distinct s1" by (simp add: distinct_map)
  have "set s \<subseteq> set s1"
  proof
    fix t assume t: "t \<in> set s"
    then have "?g t \<in> ?g ` set s1" unfolding k(2) by (rule imageI)
    then obtain t' where t': "t' \<in> set s1" "strftime t' = strftime t" by auto
    from t'(1) k(3) have "valid_timestamp t'" by (intro valid) auto
    from strftime_inj [OF this valid [OF t] t'(2)] t'(1) show "t \<in> set s1" by simp
  qed
  with k(3) have set1: "set s1 = set s" by (rule subset_antisym)
  have o: "set s2 = set s1" "distinct s2" "sorted (map strftime s2)"
      "\<forall>i \<in> set order. i < length s1"
    unfolding s2_def order_def
    by (rule sorted_rows(1) [OF d1], rule sorted_rows(2) [OF d1], rule sorted_rows(3) [OF d1],
        rule sorted_rows(4) [OF d1])
  have "build_dates_from_sales L F = Inr (calendar_frame s2)"
    unfolding build_dates_calendar [OF dates] s_def [symmetric]
      drop_duplicates_calendar s1_def [symmetric] sum.case sort_values_calendar order_def [symmetric]
      take_rows_calendar [OF o(4)] s2_def [symmetric]
    by simp
  moreover have "set s2 = {t. \<exists>c \<in> set dates. to_datetime L c = Some t}"
    unfolding o(1) set1 s_def set_map_filter ..
  ultimately have "set s2 = {t. \<exists>c \<in> set dates. to_datetime L c = Some t} \<and> distinct s2 \<and>
     sorted (map strftime s2) \<and> build_dates_from_sales L F = Inr (calendar_frame s2)"
    using o(2,3) by simp
  then show ?thesis by (rule exI [of _ s2])
qed

text \<open>
  Claim C4.  On a fact table with a \<^verbatim>\<open>date\<close> column, \<^verbatim>\<open>build_dates_from_sales\<close> returns the
  calendar of a list of dates that holds each valid date of the fact table (each date that
  a cell of the \<^verbatim>\<open>date\<close> column parses to) exactly once, in ascending order of the \<^verbatim>\<open>date\<close>
  key: one row per date, with the year, quarter, month and day of that date and with
  \<^verbatim>\<open>is_weekend\<close> 1 if the day of the week is 5 (Saturday) or 6 (Sunday), counted from Monday
  as 0, and 0 otherwise.
\<close>

theorem calendar_of_the_fact_dates:
  assumes dates: "getcol F ''date'' = Inr dates"
  shows "\<exists>ts. set ts = {t. \<exists>c \<in> set dates. to_datetime L c = Some t} \<and> distinct ts \<and>
     sorted (map strftime ts) \<and>
     build_dates_from_sales L F =
       Inr [(''date'', map (\<lambda>t. CStr (strftime t)) ts),
            (''year'', map (\<lambda>t. CInt (int (year t))) ts),
            (''quarter'', map (\<lambda>t. CInt (int (quarter t))) ts),
            (''month'', map (\<lambda>t. CInt (int (month t))) ts),
            (''day'', map (\<lambda>t. CInt (int (day t))) ts),
            (''is_weekend'',
               map (\<lambda>t. CInt (if dayofweek t = 5 \<or> dayofweek t = 6 then 1 else 0)) ts)]"
proof -
  from build_dates_returns [OF dates] obtain ts where
    ts: "set ts = {t. \<exists>c \<in> set dates. to_datetime L c = Some t}" "distinct ts"
      "sorted (map strftime ts)" "build_dates_from_sales L F = Inr (calendar_frame ts)"
    by blast
  have "calendar_frame ts = [(''date'', map (\<lambda>t. CStr (strftime t)) ts),
            (''year'', map (\<lambda>t. CInt (int (year t))) ts),
            (''quarter'', map (\<lambda>t. CInt (int (quarter t))) ts),
            (''month'', map (\<lambda>t. CInt (int (month t))) ts),
            (''day'', map (\<lambda>t. CInt (int (day t))) ts),
            (''is_weekend'',
               map (\<lambda>t. CInt (if dayofweek t = 5 \<or> dayofweek t = 6 then 1 else 0)) ts)]"
    by (simp add: calendar_frame_def)
  with ts have "set ts = {t. \<exists>c \<in> set dates. to_datetime L c = Some t} \<and> distinct ts \<and>
     sorted (map strftime ts) \<and>
     build_dates_from_sales L F =
       Inr [(''date'', map (\<lambda>t. CStr (strftime t)) ts),
            (''year'', map (\<lambda>t. CInt (int (year t))) ts),
            (''quarter'', map (\<lambda>t. CInt (int (quarter t))) ts),
            (''month'', map (\<lambda>t. CInt (int (month t))) ts),
            (''day'', map (\<lambda>t. CInt (int (day t))) ts),
            (''is_weekend'',
               map (\<lambda>t. CInt (if dayofweek t = 5 \<or> dayofweek t = 6 then 1 else 0)) ts)]"
    by simp
  then show ?thesis by (rule exI [of _ ts])
qed

text \<open>
  The calendar of the sample facts: two rows for four facts, the Saturday 2024-03-09 before
  the Monday 2024-03-11.
\<close>

lemma sample_dates_eval: "build_dates_from_sales sample_lib sample_dated_facts = Inr sample_dates"
  by code_simp

theorem calendar_of_the_fact_dates_witness:
  "getcol sample_dated_facts ''date'' =
     Inr [CStr ''2024-03-11'', CStr ''2024-03-09'', CStr ''2024-03-11'', CStr ''bad''] \<and>
   build_dates_from_sales sample_lib sample_dated_facts = Inr sample_dates \<and>
   map fst sample_dates = [''date'', ''year'', ''quarter'', ''month'', ''day'', ''is_weekend'']"
proof -
  have d: "getcol sample_dated_facts ''date'' =
     Inr [CStr ''2024-03-11'', CStr ''2024-03-09'', CStr ''2024-03-11'', CStr ''bad'']"
    by code_simp
  from calendar_of_the_fact_dates [OF d, of sample_lib] obtain ts where
    "build_dates_from_sales sample_lib sample_dated_facts =
       Inr [(''date'', map (\<lambda>t. CStr (strftime t)) ts),
            (''year'', map (\<lambda>t. CInt (int (year t))) ts),
            (''quarter'', map (\<lambda>t. CInt (int (quarter t))) ts),
            (''month'', map (\<lambda>t. CInt (int (month t))) ts),
            (''day'', map (\<lambda>t. CInt (int (day t))) ts),
            (''is_weekend'',
               map (\<lambda>t. CInt (if dayofweek t = 5 \<or> dayofweek t = 6 then 1 else 0)) ts)]"
    by blast
  with sample_dates_eval have
    X: "sample_dates = [(''date'', map (\<lambda>t. CStr (strftime t)) ts),
            (''year'', map (\<lambda>t. CInt (int (year t))) ts),
            (''quarter'', map (\<lambda>t. CInt (int (quarter t))) ts),
            (''month'', map (\<lambda>t. CInt (int (month t))) ts),
            (''day'', map (\<lambda>t. CInt (int (day t))) ts),
            (''is_weekend'',
               map (\<lambda>t. CInt (if dayofweek t = 5 \<or> dayofweek t = 6 then 1 else 0)) ts)]"
    by simp
  have "map fst sample_dates = [''date'', ''year'', ''quarter'', ''month'', ''day'', ''is_weekend'']"
    by (subst X) simp
  with sample_dates_eval d show ?thesis by simp
qed

end
